theory Spec2Isabelle
  imports Complex_Main "HOL-Library.Word"
begin

section \<open>AirLinker: signalling and chunked file transfer between two browsers\<close>

text \<open>
  The repository holds two copies of one browser script: \<^verbatim>\<open>src/script.js\<close> and an
  earlier copy, \<^verbatim>\<open>src/unnamed/part_000\<close>. Both define \<^verbatim>\<open>sendFile\<close>,
  \<^verbatim>\<open>handleIncomingChunk\<close>, \<^verbatim>\<open>handleSignal\<close> and the \<^verbatim>\<open>onmessage\<close> handler of
  the signalling socket. The two copies of \<^verbatim>\<open>handleIncomingChunk\<close>, \<^verbatim>\<open>handleSignal\<close>
  and \<^verbatim>\<open>connectWS\<close> differ only in the page elements they repaint, which are not
  modelled, so each has one definition here. The two copies of \<^verbatim>\<open>sendFile\<close> differ
  in their loop and are modelled separately.

  What is left out: the DOM (class lists, labels), \<^verbatim>\<open>formatBytes\<close>, the QR code. What
  the page shows is kept as a trace of events: the percentage written into the progress
  bar, the file handed to the browser for download, and the console lines. Every handler
  runs to its end before the next event is handled.
\<close>

subsection \<open>Constants and values\<close>

definition CHUNK_SIZE :: nat where
  "CHUNK_SIZE = 16 * 1024"

type_synonym byte = "8 word"
type_synonym bytes = "byte list"

text \<open>Exceptions of the JavaScript run time that the script can meet.\<close>

datatype js_error = SyntaxError | TypeError | InvalidStateError | OperationError

text \<open>
  A JavaScript number as the script prints it into the progress bar. The script computes
  in IEEE doubles; the model computes exactly, on integers, and keeps the two values that
  are not integers, \<^verbatim>\<open>NaN\<close> and \<^verbatim>\<open>Infinity\<close>.
\<close>

datatype number = NaN | Infinity | Num int

text \<open>
  \<^verbatim>\<open>Math.floor((a / n) * 100)\<close> for a number \<open>a \<ge> 0\<close> and a number \<open>n\<close>:
  \<^verbatim>\<open>0 / 0\<close> is \<^verbatim>\<open>NaN\<close>, \<^verbatim>\<open>a / 0\<close> is \<^verbatim>\<open>Infinity\<close> for \<open>a > 0\<close>, and
  \<open>div\<close> on \<open>int\<close> rounds towards minus infinity as \<^verbatim>\<open>Math.floor\<close> does.
\<close>

definition percent :: "nat \<Rightarrow> int \<Rightarrow> number" where
  "percent a n =
     (if n = 0 then (if a = 0 then NaN else Infinity)
      else Num ((int a * 100) div n))"

text \<open>
  A text frame on the data channel stands for what \<^verbatim>\<open>JSON.parse\<close> makes of it, as far
  as the handler reads the result: \<open>JSON_invalid\<close> when \<^verbatim>\<open>JSON.parse\<close> throws,
  \<open>JSON_null\<close> for the document \<^verbatim>\<open>null\<close> (reading a property of it throws), and
  otherwise the values of the properties \<^verbatim>\<open>name\<close> and \<^verbatim>\<open>size\<close>, \<open>None\<close> for
  \<^verbatim>\<open>undefined\<close>. A name is a string and a size an integer number here: documents that
  carry other values under these keys are not modelled.
\<close>

datatype json = JSON_invalid | JSON_null | JSON_object "string option" "int option"

datatype message = Text json | Binary bytes

text \<open>
  Console lines: \<^verbatim>\<open>log\<close>, \<^verbatim>\<open>console.warn\<close> and \<^verbatim>\<open>console.error\<close> with their
  fixed texts. The two lines that \<^verbatim>\<open>formatBytes\<close> takes part in keep the name and the
  size instead of the formatted text.
\<close>

datatype console_line =
    Log string
  | Warn string
  | Error string js_error
  | Sending string nat
  | Receiving "string option" "int option"

text \<open>
  What a run leaves behind, in order: a message handed to \<^verbatim>\<open>dc.send\<close> without an
  exception, with the time of the call; a percentage written into the progress bar; a
  file saved by the click on the download link; a console line.
\<close>

datatype event =
    Sent message nat
  | Progress number
  | Download bytes string
  | Console console_line

subsection \<open>The receive path: handleIncomingChunk\<close>

text \<open>
  \<^verbatim>\<open>receivedChunks\<close> is an array that also carries the properties
  \<^verbatim>\<open>expectedName\<close> and \<^verbatim>\<open>expectedSize\<close>. The script starts with
  \<^verbatim>\<open>let receivedChunks = []\<close>: no chunks, both properties \<^verbatim>\<open>undefined\<close>.
\<close>

record receiver =
  receivedChunks :: "bytes list"
  expectedName :: "string option"
  expectedSize :: "int option"
  events :: "event list"

definition receiver_start :: receiver where
  "receiver_start =
     \<lparr>receivedChunks = [], expectedName = None, expectedSize = None, events = []\<rparr>"

text \<open>
  \<^verbatim>\<open>receivedChunks.reduce((a, b) => a + b.byteLength, 0)\<close>.
\<close>

definition receivedSize :: "bytes list \<Rightarrow> nat" where
  "receivedSize cs = foldl (\<lambda>a b. a + length b) 0 cs"

text \<open>
  \<^verbatim>\<open>receivedSize >= receivedChunks.expectedSize\<close>: a comparison with \<^verbatim>\<open>undefined\<close>
  is a comparison with \<^verbatim>\<open>NaN\<close> and is false.
\<close>

definition reached :: "nat \<Rightarrow> int option \<Rightarrow> bool" where
  "reached n expected = (case expected of None \<Rightarrow> False | Some e \<Rightarrow> e \<le> int n)"

text \<open>
  \<^verbatim>\<open>receivedChunks.expectedName || 'download.bin'\<close>: \<^verbatim>\<open>undefined\<close> and the empty
  string are falsy.
\<close>

definition download_name :: "string option \<Rightarrow> string" where
  "download_name n =
     (case n of None \<Rightarrow> ''download.bin''
      | Some s \<Rightarrow> if s = [] then ''download.bin'' else s)"

text \<open>
  \<^verbatim>\<open>saveReceivedFile\<close> (in \<^verbatim>\<open>script.js\<close> the same statements stand inline in the
  handler): a \<^verbatim>\<open>Blob\<close> of the chunks is their concatenation, and the click on the
  link saves it under the name.
\<close>

definition saveReceivedFile :: "receiver \<Rightarrow> receiver" where
  "saveReceivedFile r =
     r\<lparr>events := events r @
         [Download (concat (receivedChunks r)) (download_name (expectedName r)),
          Console (Log ''File received and saved.'')]\<rparr>"

text \<open>
  The handler of a message on the data channel. It returns the exception it throws, if
  any, and the state it leaves. A text frame: \<^verbatim>\<open>JSON.parse\<close> runs first, so a frame it
  rejects changes nothing; \<^verbatim>\<open>receivedChunks = []\<close> runs before the properties of
  \<^verbatim>\<open>meta\<close> are read, so the document \<^verbatim>\<open>null\<close> empties the accumulator before
  \<^verbatim>\<open>meta.name\<close> throws. A binary frame is pushed, the percentage is written, and the
  file is saved when the size is reached. (\<^verbatim>\<open>part_000\<close> writes the console line of a
  text frame before it resets the bar; the order of \<^verbatim>\<open>script.js\<close> is kept.)
\<close>

fun handleIncomingChunk :: "message \<Rightarrow> receiver \<Rightarrow> js_error option \<times> receiver" where
  "handleIncomingChunk (Text JSON_invalid) r = (Some SyntaxError, r)"
| "handleIncomingChunk (Text JSON_null) r =
     (Some TypeError, r\<lparr>receivedChunks := [], expectedName := None, expectedSize := None\<rparr>)"
| "handleIncomingChunk (Text (JSON_object n s)) r =
     (None, r\<lparr>receivedChunks := [], expectedName := n, expectedSize := s,
               events := events r @ [Progress (Num 0), Console (Receiving n s)]\<rparr>)"
| "handleIncomingChunk (Binary b) r =
     (let chunks = receivedChunks r @ [b];
          total = receivedSize chunks;
          pct = (case expectedSize r of None \<Rightarrow> NaN | Some e \<Rightarrow> percent total e);
          r1 = r\<lparr>receivedChunks := chunks, events := events r @ [Progress pct]\<rparr>
      in if reached total (expectedSize r) then (None, saveReceivedFile r1) else (None, r1))"

text \<open>
  The messages of a channel, handled in arrival order. An exception thrown by the handler
  of one message is reported by the browser and does not stop the next one.
\<close>

fun deliver :: "message list \<Rightarrow> receiver \<Rightarrow> receiver" where
  "deliver [] r = r"
| "deliver (m # ms) r = deliver ms (snd (handleIncomingChunk m r))"

text \<open>The files saved in a trace, and what the accumulator holds.\<close>

definition downloads :: "event list \<Rightarrow> (bytes \<times> string) list" where
  "downloads es = concat (map (\<lambda>e. case e of Download b n \<Rightarrow> [(b, n)] | _ \<Rightarrow> []) es)"


text \<open>
  The files that a run of binary frames \<open>bs\<close> saves from the state \<open>r\<close>: one for every
  prefix of \<open>bs\<close> with which the size is reached.
\<close>

definition completions :: "receiver \<Rightarrow> bytes list \<Rightarrow> (bytes \<times> string) list" where
  "completions r bs =
     map (\<lambda>k. (concat (receivedChunks r @ take k bs), download_name (expectedName r)))
       (filter (\<lambda>k. reached (receivedSize (receivedChunks r @ take k bs)) (expectedSize r))
          [1..<Suc (length bs)])"

subsection \<open>The send path: sendFile\<close>

text \<open>
  A \<^verbatim>\<open>File\<close> is its name and its bytes; \<^verbatim>\<open>file.size\<close> is the number of bytes.
\<close>

record File =
  name :: string
  content :: bytes

definition file_size :: "File \<Rightarrow> nat" where
  "file_size f = length (content f)"

text \<open>
  \<^verbatim>\<open>file.slice(a, b)\<close> for \<open>a \<le> b\<close>: the bytes from \<open>a\<close> up to \<open>b\<close>, and no further
  than the end of the file.
\<close>

definition Blob_slice :: "bytes \<Rightarrow> nat \<Rightarrow> nat \<Rightarrow> bytes" where
  "Blob_slice xs a b = take (b - a) (drop a xs)"

text \<open>
  The data channel as \<^verbatim>\<open>sendFile\<close> meets it. Time is counted in suspensions of the
  function: every \<^verbatim>\<open>await\<close> is one tick. \<open>bufferedAmount dc t\<close> is what
  \<^verbatim>\<open>dc.bufferedAmount\<close> reads at time \<open>t\<close>, and \<open>send_throws dc t\<close> is the exception
  that a call of \<^verbatim>\<open>dc.send\<close> at time \<open>t\<close> throws, if any. Both are arbitrary: nothing
  is assumed about how the browser drains the buffer. A read of \<^verbatim>\<open>dc.bufferedAmount\<close>
  and the \<^verbatim>\<open>dc.send\<close> after it with no \<^verbatim>\<open>await\<close> between them happen at the same
  time.
\<close>

record channel =
  bufferedAmount :: "nat \<Rightarrow> nat"
  send_throws :: "nat \<Rightarrow> js_error option"

text \<open>The local variables of \<^verbatim>\<open>sendFile\<close>, the clock and the trace.\<close>

record sender =
  now :: nat
  offset :: nat
  chunkIndex :: nat
  trace :: "event list"

text \<open>\<^verbatim>\<open>JSON.stringify({ name: file.name, size: file.size })\<close>, as the receiver parses it.\<close>

definition metadata :: "File \<Rightarrow> message" where
  "metadata f = Text (JSON_object (Some (name f)) (Some (int (file_size f))))"

text \<open>
  \<^verbatim>\<open>while (dc.bufferedAmount > 5 * CHUNK_SIZE) await new Promise(r => setTimeout(r, 50))\<close>.
  The loop runs as long as the channel stays full, so it takes fuel: \<open>None\<close> when the
  fuel runs out, otherwise the time at which the loop is left.
\<close>

fun wait_drain :: "nat \<Rightarrow> channel \<Rightarrow> nat \<Rightarrow> nat option" where
  "wait_drain 0 dc t = None"
| "wait_drain (Suc n) dc t =
     (if bufferedAmount dc t > 5 * CHUNK_SIZE then wait_drain n dc (Suc t) else Some t)"

text \<open>
  The loop of \<^verbatim>\<open>sendFile\<close> in \<^verbatim>\<open>script.js\<close>. One round: read the slice (a
  suspension), wait for the buffer, call \<^verbatim>\<open>dc.send\<close>. When the call throws, the
  round warns, sleeps 200 ms (a suspension) and starts again with the same offset: the
  retries are not bounded, so this loop takes fuel as well.
\<close>

fun send_loop :: "nat \<Rightarrow> channel \<Rightarrow> File \<Rightarrow> sender \<Rightarrow> sender option" where
  "send_loop 0 dc f s = None"
| "send_loop (Suc n) dc f s =
     (if offset s < file_size f then
        (let chunk = Blob_slice (content f) (offset s) (offset s + CHUNK_SIZE) in
         case wait_drain (Suc n) dc (Suc (now s)) of
           None \<Rightarrow> None
         | Some t \<Rightarrow>
             (case send_throws dc t of
                None \<Rightarrow>
                  (let offset' = offset s + CHUNK_SIZE;
                       pct = percent offset' (int (file_size f))
                   in send_loop n dc f
                        \<lparr>now = t, offset = offset', chunkIndex = chunkIndex s + 1,
                         trace = trace s @ [Sent (Binary chunk) t, Progress pct]\<rparr>)
              | Some err \<Rightarrow>
                  send_loop n dc f
                    (s\<lparr>now := Suc t,
                       trace := trace s @ [Console (Warn ''Send failed, retrying chunk...'')]\<rparr>)))
      else Some s)"

text \<open>
  \<^verbatim>\<open>sendFile\<close> of \<^verbatim>\<open>script.js\<close>: nothing happens without a file or a channel; the
  metadata are sent outside any \<^verbatim>\<open>try\<close>, so an exception there rejects the promise;
  then the loop. The result is \<open>None\<close> when the fuel runs out, \<open>Inl\<close> for a rejected
  promise and \<open>Inr\<close> for a fulfilled one.
\<close>

definition sendFile ::
  "nat \<Rightarrow> channel option \<Rightarrow> File option \<Rightarrow> (js_error \<times> sender + sender) option" where
  "sendFile fuel dc fileToSend =
     (case (fileToSend, dc) of
        (Some f, Some ch) \<Rightarrow>
          (let s0 = \<lparr>now = 0, offset = 0, chunkIndex = 0,
                     trace = [Console (Sending (name f) (file_size f))]\<rparr>
           in case send_throws ch 0 of
                Some err \<Rightarrow> Some (Inl (err, s0))
              | None \<Rightarrow>
                  (case send_loop fuel ch f (s0\<lparr>trace := trace s0 @ [Sent (metadata f) 0]\<rparr>) of
                     None \<Rightarrow> None
                   | Some s \<Rightarrow>
                       Some (Inr (s\<lparr>trace := trace s @ [Console (Log ''File sent successfully!'')]\<rparr>))))
      | _ \<Rightarrow> Some (Inr \<lparr>now = 0, offset = 0, chunkIndex = 0, trace = []\<rparr>))"

text \<open>
  The loop of \<^verbatim>\<open>sendFile\<close> in \<^verbatim>\<open>part_000\<close>: read the slice, send it, advance. There
  is no wait for the buffer and no \<^verbatim>\<open>try\<close>: an exception of \<^verbatim>\<open>dc.send\<close> rejects the
  promise. The offset grows in every round, so the loop ends.
\<close>

function send_loop_part_000 :: "channel \<Rightarrow> File \<Rightarrow> sender \<Rightarrow> js_error \<times> sender + sender" where
  "send_loop_part_000 dc f s =
     (if offset s < file_size f then
        (let chunk = Blob_slice (content f) (offset s) (offset s + CHUNK_SIZE);
             t = Suc (now s)
         in case send_throws dc t of
              Some err \<Rightarrow> Inl (err, s\<lparr>now := t\<rparr>)
            | None \<Rightarrow>
                (let offset' = offset s + CHUNK_SIZE;
                     pct = percent offset' (int (file_size f))
                 in send_loop_part_000 dc f
                      \<lparr>now = t, offset = offset', chunkIndex = chunkIndex s,
                       trace = trace s @ [Sent (Binary chunk) t, Progress pct]\<rparr>))
      else Inr s)"
  by pat_completeness auto
termination
  by (relation "measure (\<lambda>(dc, f, s). file_size f - offset s)") (auto simp: CHUNK_SIZE_def)

definition sendFile_part_000 ::
  "channel option \<Rightarrow> File option \<Rightarrow> js_error \<times> sender + sender" where
  "sendFile_part_000 dc fileToSend =
     (case (fileToSend, dc) of
        (Some f, Some ch) \<Rightarrow>
          (let s0 = \<lparr>now = 0, offset = 0, chunkIndex = 0,
                     trace = [Console (Sending (name f) (file_size f))]\<rparr>
           in case send_throws ch 0 of
                Some err \<Rightarrow> Inl (err, s0)
              | None \<Rightarrow>
                  (case send_loop_part_000 ch f (s0\<lparr>trace := trace s0 @ [Sent (metadata f) 0]\<rparr>) of
                     Inl e \<Rightarrow> Inl e
                   | Inr s \<Rightarrow>
                       Inr (s\<lparr>trace := trace s @ [Console (Log ''File sent successfully!'')]\<rparr>)))
      | _ \<Rightarrow> Inr \<lparr>now = 0, offset = 0, chunkIndex = 0, trace = []\<rparr>)"

text \<open>The state in which both loops start: the metadata are on the channel.\<close>

definition sender_start :: "File \<Rightarrow> sender" where
  "sender_start f =
     \<lparr>now = 0, offset = 0, chunkIndex = 0,
      trace = [Console (Sending (name f) (file_size f)), Sent (metadata f) 0]\<rparr>"

text \<open>
  What a trace holds: the binary frames, all messages, the percentages.
\<close>

definition binary_frames :: "event list \<Rightarrow> bytes list" where
  "binary_frames es =
     concat (map (\<lambda>e. case e of Sent (Binary b) t \<Rightarrow> [b] | _ \<Rightarrow> []) es)"

definition sent_messages :: "event list \<Rightarrow> message list" where
  "sent_messages es = concat (map (\<lambda>e. case e of Sent m t \<Rightarrow> [m] | _ \<Rightarrow> []) es)"

definition progress :: "event list \<Rightarrow> number list" where
  "progress es = concat (map (\<lambda>e. case e of Progress p \<Rightarrow> [p] | _ \<Rightarrow> []) es)"

text \<open>
  The slices that the loops cut from offset \<open>off\<close> on, and the percentages they write:
  the loops without the channel.
\<close>

function slices :: "bytes \<Rightarrow> nat \<Rightarrow> bytes list" where
  "slices xs off =
     (if off < length xs then Blob_slice xs off (off + CHUNK_SIZE) # slices xs (off + CHUNK_SIZE)
      else [])"
  by pat_completeness auto
termination
  by (relation "measure (\<lambda>(xs, off). length xs - off)") (auto simp: CHUNK_SIZE_def)

function percents :: "nat \<Rightarrow> nat \<Rightarrow> number list" where
  "percents sz off =
     (if off < sz
      then percent (off + CHUNK_SIZE) (int sz) # percents sz (off + CHUNK_SIZE)
      else [])"
  by pat_completeness auto
termination
  by (relation "measure (\<lambda>(sz, off). sz - off)") (auto simp: CHUNK_SIZE_def)

subsection \<open>Signalling: handleSignal and the socket's onmessage\<close>

text \<open>
  The browser's \<^verbatim>\<open>RTCPeerConnection\<close> is not part of the script. It is taken as an
  interface over some state \<open>'pc\<close>: the attribute the script reads and the methods it
  awaits, each of which is fulfilled (\<open>Inr\<close>) or rejected (\<open>Inl\<close>). What is proved of
  \<^verbatim>\<open>handleSignal\<close> holds for every such connection.
\<close>

datatype signaling_state =
  Stable | HaveLocalOffer | HaveRemoteOffer | HaveLocalPranswer | HaveRemotePranswer | Closed

datatype sdp_type = Offer | Answer

type_synonym description = "sdp_type \<times> string"

datatype candidate = Candidate string

record 'pc RTCPeerConnection =
  signalingState :: "'pc \<Rightarrow> signaling_state"
  createOffer :: "'pc \<Rightarrow> js_error + string"
  createAnswer :: "'pc \<Rightarrow> js_error + string"
  setLocalDescription :: "description \<Rightarrow> 'pc \<Rightarrow> js_error + 'pc"
  setRemoteDescription :: "description \<Rightarrow> 'pc \<Rightarrow> js_error + 'pc"
  addIceCandidate :: "candidate \<Rightarrow> 'pc \<Rightarrow> js_error + 'pc"

text \<open>
  An envelope, parsed: \<^verbatim>\<open>msg.type\<close>, \<^verbatim>\<open>msg.sdp\<close>, \<^verbatim>\<open>msg.candidate\<close> and
  \<^verbatim>\<open>msg.sessionId\<close>, \<open>None\<close> for a property that is absent. A candidate is an object
  and so truthy when present; an SDP is a string and truthy when not empty.
\<close>

record envelope =
  msg_type :: string
  msg_sdp :: "string option"
  msg_candidate :: "candidate option"
  msg_sessionId :: "string option"

text \<open>
  The globals of the script that \<^verbatim>\<open>handleSignal\<close> touches: \<^verbatim>\<open>pc\<close>; whether \<^verbatim>\<open>dc\<close>
  holds a channel; \<^verbatim>\<open>sessionId\<close>; the envelopes handed to \<^verbatim>\<open>ws.send\<close>, in order; the
  console.
\<close>

record 'pc client =
  pc :: 'pc
  dc :: bool
  sessionId :: "string option"
  ws :: "envelope list"
  console :: "console_line list"

definition log' :: "string \<Rightarrow> 'pc client \<Rightarrow> 'pc client" where
  "log' msg c = c\<lparr>console := console c @ [Log msg]\<rparr>"

definition warn :: "string \<Rightarrow> 'pc client \<Rightarrow> 'pc client" where
  "warn msg c = c\<lparr>console := console c @ [Warn msg]\<rparr>"

definition ws_send :: "envelope \<Rightarrow> 'pc client \<Rightarrow> 'pc client" where
  "ws_send m c = c\<lparr>ws := ws c @ [m]\<rparr>"

definition truthy :: "string option \<Rightarrow> bool" where
  "truthy v = (case v of None \<Rightarrow> False | Some s \<Rightarrow> s \<noteq> [])"

text \<open>
  \<^verbatim>\<open>handleSignal\<close>, branch by branch as the script tests them. It returns the error
  that rejects its promise, if any, and the state it leaves. \<^verbatim>\<open>msg.sessionId\<close> is read
  nowhere.
\<close>

definition handleSignal ::
  "'pc RTCPeerConnection \<Rightarrow> envelope \<Rightarrow> 'pc client \<Rightarrow> js_error option \<times> 'pc client" where
  "handleSignal api msg c =
     (if msg_type msg = ''session-joined'' then
        (let c1 = log' ''Receiver connected, sending offer...'' c in
         case createOffer api (pc c1) of
           Inl err \<Rightarrow> (Some err, c1)
         | Inr offer_sdp \<Rightarrow>
             (case setLocalDescription api (Offer, offer_sdp) (pc c1) of
                Inl err \<Rightarrow> (Some err, c1)
              | Inr p \<Rightarrow>
                  (None,
                   ws_send \<lparr>msg_type = ''offer'', msg_sdp = Some offer_sdp,
                            msg_candidate = None, msg_sessionId = sessionId c1\<rparr>
                     (c1\<lparr>pc := p\<rparr>))))
      else if msg_type msg = ''offer'' \<and> truthy (msg_sdp msg) then
        (if dc c then (None, warn ''Ignoring duplicate offer on sender side'' c)
         else
           (let c1 = log' ''Received offer from sender'' c in
            case setRemoteDescription api (Offer, the (msg_sdp msg)) (pc c1) of
              Inl err \<Rightarrow> (Some err, c1)
            | Inr p1 \<Rightarrow>
                (case createAnswer api p1 of
                   Inl err \<Rightarrow> (Some err, c1\<lparr>pc := p1\<rparr>)
                 | Inr answer_sdp \<Rightarrow>
                     (case setLocalDescription api (Answer, answer_sdp) p1 of
                        Inl err \<Rightarrow> (Some err, c1\<lparr>pc := p1\<rparr>)
                      | Inr p2 \<Rightarrow>
                          (None,
                           log' ''Answer sent back to sender''
                             (ws_send \<lparr>msg_type = ''answer'', msg_sdp = Some answer_sdp,
                                       msg_candidate = None, msg_sessionId = sessionId c1\<rparr>
                                (c1\<lparr>pc := p2\<rparr>)))))))
      else if msg_type msg = ''answer'' \<and> truthy (msg_sdp msg) then
        (if signalingState api (pc c) = Stable
         then (None, warn ''Ignoring duplicate answer (already stable)'' c)
         else
           (let c1 = log' ''Received answer, establishing connection...'' c in
            case setRemoteDescription api (Answer, the (msg_sdp msg)) (pc c1) of
              Inl err \<Rightarrow> (Some err, c1)
            | Inr p \<Rightarrow> (None, log' ''Peer connection established'' (c1\<lparr>pc := p\<rparr>))))
      else if msg_type msg = ''ice-candidate'' \<and> msg_candidate msg \<noteq> None then
        (case addIceCandidate api (the (msg_candidate msg)) (pc c) of
           Inl err \<Rightarrow> (None, c\<lparr>console := console c @ [Error ''Error adding ICE candidate:'' err]\<rparr>)
         | Inr p \<Rightarrow> (None, c\<lparr>pc := p\<rparr>))
      else (None, c))"

text \<open>
  A message of the socket arrives as a string or as a \<^verbatim>\<open>Blob\<close> whose text is read
  first; either way it stands for what \<^verbatim>\<open>JSON.parse\<close> makes of the text, \<open>None\<close> when
  \<^verbatim>\<open>JSON.parse\<close> throws. The handler catches that exception and warns. The promise of
  \<^verbatim>\<open>handleSignal\<close> is not awaited: its rejection is reported by the browser and is
  not caught.
\<close>

datatype ws_data = StringData "envelope option" | BlobData "envelope option"

definition payload :: "ws_data \<Rightarrow> envelope option" where
  "payload e = (case e of StringData d \<Rightarrow> d | BlobData d \<Rightarrow> d)"

definition onmessage :: "'pc RTCPeerConnection \<Rightarrow> ws_data \<Rightarrow> 'pc client \<Rightarrow> 'pc client" where
  "onmessage api e c =
     (case payload e of
        None \<Rightarrow> warn ''Non-JSON WebSocket message ignored:'' c
      | Some msg \<Rightarrow>
          (case handleSignal api msg c of
             (None, c') \<Rightarrow> c'
           | (Some err, c') \<Rightarrow>
               c'\<lparr>console := console c' @ [Error ''Uncaught (in promise)'' err]\<rparr>))"

text \<open>A client without its console: what the handlers act on.\<close>

definition silent :: "'pc client \<Rightarrow> 'pc client" where
  "silent c = c\<lparr>console := []\<rparr>"

subsection \<open>Channels, files and peers of the examples\<close>

text \<open>
  A channel that is never full and never throws; one that is always full; one that is
  full at the times 1 and 2 and throws at time 3.
\<close>

definition idle_channel :: channel where
  "idle_channel = \<lparr>bufferedAmount = (\<lambda>t. 0), send_throws = (\<lambda>t. None)\<rparr>"


definition flaky_channel :: channel where
  "flaky_channel =
     \<lparr>bufferedAmount = (\<lambda>t. if t < 3 then 100000 else 0),
      send_throws = (\<lambda>t. if t = 3 then Some OperationError else None)\<rparr>"

definition empty_file :: File where
  "empty_file = \<lparr>name = ''empty.txt'', content = []\<rparr>"

definition small_file :: File where
  "small_file = \<lparr>name = ''a.txt'', content = [1, 2, 3]\<rparr>"

definition large_file :: File where
  "large_file = \<lparr>name = ''b.bin'', content = replicate 40000 0\<rparr>"

text \<open>
  A peer connection for the examples: the offer and answer transitions of JSEP, without
  provisional answers and without rollback, generating one fixed SDP.
\<close>

record peer =
  state :: signaling_state
  localDescription :: "description option"
  remoteDescription :: "description option"
  remoteCandidates :: "candidate list"

definition jsep :: "string \<Rightarrow> peer RTCPeerConnection" where
  "jsep generated =
     \<lparr>signalingState = state,
      createOffer = (\<lambda>p. if state p = Closed then Inl InvalidStateError else Inr generated),
      createAnswer =
        (\<lambda>p. if state p = HaveRemoteOffer then Inr generated else Inl InvalidStateError),
      setLocalDescription =
        (\<lambda>d p. case fst d of
             Offer \<Rightarrow>
               if state p = Stable \<or> state p = HaveLocalOffer
               then Inr (p\<lparr>state := HaveLocalOffer, localDescription := Some d\<rparr>)
               else Inl InvalidStateError
           | Answer \<Rightarrow>
               if state p = HaveRemoteOffer
               then Inr (p\<lparr>state := Stable, localDescription := Some d\<rparr>)
               else Inl InvalidStateError),
      setRemoteDescription =
        (\<lambda>d p. case fst d of
             Offer \<Rightarrow>
               if state p = Stable \<or> state p = HaveRemoteOffer
               then Inr (p\<lparr>state := HaveRemoteOffer, remoteDescription := Some d\<rparr>)
               else Inl InvalidStateError
           | Answer \<Rightarrow>
               if state p = HaveLocalOffer
               then Inr (p\<lparr>state := Stable, remoteDescription := Some d\<rparr>)
               else Inl InvalidStateError),
      addIceCandidate =
        (\<lambda>cand p. if remoteDescription p = None then Inl InvalidStateError
           else Inr (p\<lparr>remoteCandidates := remoteCandidates p @ [cand]\<rparr>))\<rparr>"

text \<open>
  A sender that has sent its offer, the same sender once the answer is in, an answer of
  its own session and an answer that carries another session's id.
\<close>

definition offering_client :: "peer client" where
  "offering_client =
     \<lparr>pc = \<lparr>state = HaveLocalOffer, localDescription = Some (Offer, ''v=0 local''),
             remoteDescription = None, remoteCandidates = []\<rparr>,
      dc = True, sessionId = Some ''abc1234'', ws = [], console = []\<rparr>"

definition connected_client :: "peer client" where
  "connected_client =
     \<lparr>pc = \<lparr>state = Stable, localDescription = Some (Offer, ''v=0 local''),
             remoteDescription = Some (Answer, ''v=0 remote''), remoteCandidates = []\<rparr>,
      dc = True, sessionId = Some ''abc1234'', ws = [], console = []\<rparr>"

definition remote_answer :: envelope where
  "remote_answer =
     \<lparr>msg_type = ''answer'', msg_sdp = Some ''v=0 remote'', msg_candidate = None,
      msg_sessionId = Some ''abc1234''\<rparr>"

definition foreign_answer :: envelope where
  "foreign_answer =
     \<lparr>msg_type = ''answer'', msg_sdp = Some ''v=0 other'', msg_candidate = None,
      msg_sessionId = Some ''zzzzzzz''\<rparr>"

section \<open>Properties\<close>

subsection \<open>Binary frames before any metadata\<close>

lemma deliver_append: "deliver (ms @ ms') r = deliver ms' (deliver ms r)"
  by (induction ms arbitrary: r) simp_all

lemma deliver_binary_unsized:
  "expectedSize r = None \<Longrightarrow>
   deliver (map Binary bs) r =
     r\<lparr>receivedChunks := receivedChunks r @ bs,
       events := events r @ replicate (length bs) (Progress NaN)\<rparr>"
proof (induction bs arbitrary: r)
  case Nil
  then show ?case by simp
next
  case (Cons b bs)
  let ?r1 = "r\<lparr>receivedChunks := receivedChunks r @ [b], events := events r @ [Progress NaN]\<rparr>"
  have step: "snd (handleIncomingChunk (Binary b) r) = ?r1"
    using Cons.prems by (simp add: reached_def Let_def)
  have "expectedSize ?r1 = None"
    using Cons.prems by simp
  from Cons.IH [OF this] have "deliver (map Binary bs) ?r1 =
      r\<lparr>receivedChunks := receivedChunks r @ b # bs,
        events := events r @ Progress NaN # replicate (length bs) (Progress NaN)\<rparr>"
    by simp
  moreover have "deliver (map Binary (b # bs)) r = deliver (map Binary bs) ?r1"
    by (simp only: list.map deliver.simps step)
  ultimately show ?case by simp
qed

text \<open>
  Claim C10. Binary frames that arrive before any text frame are appended to an
  accumulator whose \<^verbatim>\<open>expectedSize\<close> is \<^verbatim>\<open>undefined\<close>: each of them writes the
  percentage \<^verbatim>\<open>NaN\<close>, which is no integer, the comparison that ends a transfer is
  never true, and no file is ever saved, however many such frames arrive.
\<close>

theorem binary_before_metadata:
  "receivedChunks (deliver (map Binary bs) receiver_start) = bs \<and>
   events (deliver (map Binary bs) receiver_start) = replicate (length bs) (Progress NaN) \<and>
   downloads (events (deliver (map Binary bs) receiver_start)) = [] \<and>
   \<not> reached (receivedSize bs) (expectedSize (deliver (map Binary bs) receiver_start)) \<and>
   (\<forall>k. Progress (Num k) \<notin> set (events (deliver (map Binary bs) receiver_start)))"
proof -
  have none: "expectedSize receiver_start = None"
    by (simp add: receiver_start_def)
  have eq: "deliver (map Binary bs) receiver_start =
      receiver_start\<lparr>receivedChunks := receivedChunks receiver_start @ bs,
        events := events receiver_start @ replicate (length bs) (Progress NaN)\<rparr>"
    by (rule deliver_binary_unsized [OF none])
  have dl: "downloads (replicate n (Progress NaN)) = []" for n
    by (induction n) (simp_all add: downloads_def)
  show ?thesis
    unfolding eq by (simp add: receiver_start_def dl reached_def)
qed

subsection \<open>Slices of a file\<close>

declare slices.simps [simp del]

declare percents.simps [simp del]

declare send_loop_part_000.simps [simp del]

lemma CHUNK_SIZE_pos [simp]: "0 < CHUNK_SIZE"
  by (simp add: CHUNK_SIZE_def)

lemma slices_done [simp]: "\<not> off < length xs \<Longrightarrow> slices xs off = []"
  by (subst slices.simps) simp

lemma slices_step:
  "off < length xs \<Longrightarrow>
   slices xs off = Blob_slice xs off (off + CHUNK_SIZE) # slices xs (off + CHUNK_SIZE)"
  by (subst slices.simps) simp

lemma concat_slices: "concat (slices xs off) = drop off xs"
proof (induction xs off rule: slices.induct)
  case (1 xs off)
  show ?case
  proof (cases "off < length xs")
    case True
    have "take CHUNK_SIZE (drop off xs) @ drop (off + CHUNK_SIZE) xs = drop off xs"
      by (metis add.commute append_take_drop_id drop_drop)
    with 1 True show ?thesis
      by (simp add: slices_step Blob_slice_def)
  next
    case False
    then show ?thesis by simp
  qed
qed

lemma below_count:
  assumes "0 < c"
  shows "k < (n + c - 1) div c \<longleftrightarrow> k * c < (n::nat)"
proof -
  have "k < (n + c - 1) div c \<longleftrightarrow> Suc k \<le> (n + c - 1) div c"
    by auto
  also have "\<dots> \<longleftrightarrow> Suc k * c \<le> n + c - 1"
    using assms by (simp only: less_eq_div_iff_mult_less_eq)
  also have "\<dots> \<longleftrightarrow> k * c < n"
    using assms by auto
  finally show ?thesis .
qed

lemma ceil_div:
  assumes "0 < c"
  shows "nat \<lceil>real s / real c\<rceil> = (s + c - 1) div c"
proof -
  let ?q = "(s + c - 1) div c"
  have up: "s \<le> ?q * c"
    using below_count [OF assms, of ?q s] by simp
  have low: "real ?q - 1 < real s / real c"
  proof (cases "?q = 0")
    case True
    have "(0::real) \<le> real s / real c" by simp
    then have "- 1 < real s / real c" by linarith
    with True show ?thesis by simp
  next
    case False
    then have "(?q - 1) * c < s"
      using below_count [OF assms, of "?q - 1" s] by simp
    then have "real ((?q - 1) * c) < real s"
      by (simp only: of_nat_less_iff)
    moreover have "real ((?q - 1) * c) = (real ?q - 1) * real c"
      using False by (simp add: of_nat_diff)
    ultimately show ?thesis
      using assms by (simp add: pos_less_divide_eq)
  qed
  have "real s \<le> real (?q * c)"
    using up by (simp only: of_nat_le_iff)
  then have hi: "real s / real c \<le> real ?q"
    using assms by (simp add: pos_divide_le_eq)
  have "\<lceil>real s / real c\<rceil> = int ?q"
    by (rule ceiling_unique) (use low hi in simp_all)
  then show ?thesis by simp
qed

lemma slices_map:
  assumes "k \<le> n" and "n = (length xs + CHUNK_SIZE - 1) div CHUNK_SIZE"
  shows "slices xs (k * CHUNK_SIZE) =
    map (\<lambda>j. Blob_slice xs (j * CHUNK_SIZE) (j * CHUNK_SIZE + CHUNK_SIZE)) [k..<n]"
  using assms
proof (induction k rule: inc_induct)
  case base
  have "\<not> n * CHUNK_SIZE < length xs"
    using below_count [of CHUNK_SIZE n "length xs"] base by simp
  then show ?case by simp
next
  case (step k)
  have "k * CHUNK_SIZE < length xs"
    using below_count [of CHUNK_SIZE k "length xs"] step by simp
  then have "slices xs (k * CHUNK_SIZE) =
      Blob_slice xs (k * CHUNK_SIZE) (k * CHUNK_SIZE + CHUNK_SIZE) # slices xs (Suc k * CHUNK_SIZE)"
    by (simp add: slices_step add.commute)
  with step show ?case
    by (simp add: upt_conv_Cons)
qed

lemma length_slice_sum: "sum_list (map length (slices xs off)) = length xs - off"
proof -
  have "sum_list (map length (slices xs off)) = length (concat (slices xs off))"
    by (simp add: length_concat)
  then show ?thesis by (simp add: concat_slices)
qed

lemma slices_0:
  "slices xs 0 =
     map (\<lambda>k. Blob_slice xs (k * CHUNK_SIZE) (k * CHUNK_SIZE + CHUNK_SIZE))
       [0..<nat \<lceil>real (length xs) / real CHUNK_SIZE\<rceil>]"
  using slices_map [of 0 "(length xs + CHUNK_SIZE - 1) div CHUNK_SIZE" xs]
  by (simp add: ceil_div)

lemma length_slices_0: "length (slices xs 0) = (length xs + CHUNK_SIZE - 1) div CHUNK_SIZE"
  using slices_map [of 0 "(length xs + CHUNK_SIZE - 1) div CHUNK_SIZE" xs] by simp

lemma concat_take_slices: "concat (take k (slices xs 0)) = take (k * CHUNK_SIZE) xs"
proof (induction k)
  case 0
  then show ?case by simp
next
  case (Suc k)
  let ?n = "(length xs + CHUNK_SIZE - 1) div CHUNK_SIZE"
  have sl: "slices xs 0 =
      map (\<lambda>j. Blob_slice xs (j * CHUNK_SIZE) (j * CHUNK_SIZE + CHUNK_SIZE)) [0..<?n]"
    using slices_map [of 0 ?n xs] by simp
  show ?case
  proof (cases "k < ?n")
    case True
    then have "take (Suc k) (slices xs 0) =
        take k (slices xs 0) @ [Blob_slice xs (k * CHUNK_SIZE) (k * CHUNK_SIZE + CHUNK_SIZE)]"
      by (simp add: sl take_Suc_conv_app_nth)
    moreover have "take (Suc k * CHUNK_SIZE) xs =
        take (k * CHUNK_SIZE) xs @ take CHUNK_SIZE (drop (k * CHUNK_SIZE) xs)"
      using take_add [of "k * CHUNK_SIZE" CHUNK_SIZE xs] by (simp add: add.commute)
    ultimately show ?thesis
      by (simp add: Suc.IH Blob_slice_def)
  next
    case False
    then have "\<not> k * CHUNK_SIZE < length xs"
      using below_count [of CHUNK_SIZE k "length xs"] by simp
    moreover from False have "take (Suc k) (slices xs 0) = take k (slices xs 0)"
      by (simp add: sl)
    ultimately show ?thesis
      by (simp add: Suc.IH)
  qed
qed

subsection \<open>The loops of sendFile\<close>

lemma binary_frames_append: "binary_frames (xs @ ys) = binary_frames xs @ binary_frames ys"
  by (simp add: binary_frames_def)

lemma progress_append: "progress (xs @ ys) = progress xs @ progress ys"
  by (simp add: progress_def)

lemma sent_messages_append: "sent_messages (xs @ ys) = sent_messages xs @ sent_messages ys"
  by (simp add: sent_messages_def)

lemma wait_drain_Some:
  "wait_drain m ch t0 = Some t \<Longrightarrow> t0 \<le> t \<and> bufferedAmount ch t \<le> 5 * CHUNK_SIZE"
proof (induction m arbitrary: t0)
  case 0
  then show ?case by simp
next
  case (Suc m)
  show ?case
  proof (cases "bufferedAmount ch t0 > 5 * CHUNK_SIZE")
    case True
    with Suc.prems have "wait_drain m ch (Suc t0) = Some t" by simp
    from Suc.IH [OF this] show ?thesis by simp
  next
    case False
    with Suc.prems show ?thesis by simp
  qed
qed

lemma send_loop_cases:
  assumes "send_loop (Suc n) ch f s = Some s'" and "offset s < file_size f"
  obtains t where "wait_drain (Suc n) ch (Suc (now s)) = Some t" "send_throws ch t = None"
      "send_loop n ch f
          \<lparr>now = t, offset = offset s + CHUNK_SIZE, chunkIndex = chunkIndex s + 1,
           trace = trace s @ [Sent (Binary (Blob_slice (content f) (offset s) (offset s + CHUNK_SIZE))) t,
             Progress (percent (offset s + CHUNK_SIZE) (int (file_size f)))]\<rparr> = Some s'"
  | t err where "wait_drain (Suc n) ch (Suc (now s)) = Some t" "send_throws ch t = Some err"
      "send_loop n ch f
          (s\<lparr>now := Suc t, trace := trace s @ [Console (Warn ''Send failed, retrying chunk...'')]\<rparr>) = Some s'"
proof -
  from assms obtain t where t: "wait_drain (Suc n) ch (Suc (now s)) = Some t"
    by (auto simp: Let_def split: option.splits)
  show thesis
  proof (cases "send_throws ch t")
    case None
    with assms t that(1) show ?thesis by (simp add: Let_def)
  next
    case (Some err)
    with assms t that(2) show ?thesis by (simp add: Let_def)
  qed
qed

lemma send_loop_frames:
  "send_loop n ch f s = Some s' \<Longrightarrow>
   binary_frames (trace s') = binary_frames (trace s) @ slices (content f) (offset s)"
proof (induction n arbitrary: s)
  case 0
  then show ?case by simp
next
  case (Suc n)
  show ?case
  proof (cases "offset s < file_size f")
    case False
    with Suc.prems show ?thesis
      by (auto simp: file_size_def)
  next
    case True
    then have sl: "slices (content f) (offset s) =
        Blob_slice (content f) (offset s) (offset s + CHUNK_SIZE) # slices (content f) (offset s + CHUNK_SIZE)"
      by (simp add: slices_step file_size_def)
    from Suc.prems True obtain t where t: "wait_drain (Suc n) ch (Suc (now s)) = Some t"
      by (auto simp: Let_def split: option.splits)
    show ?thesis
    proof (cases "send_throws ch t")
      case None
      with Suc.prems True t have "send_loop n ch f
          \<lparr>now = t, offset = offset s + CHUNK_SIZE, chunkIndex = chunkIndex s + 1,
           trace = trace s @ [Sent (Binary (Blob_slice (content f) (offset s) (offset s + CHUNK_SIZE))) t,
             Progress (percent (offset s + CHUNK_SIZE) (int (file_size f)))]\<rparr> = Some s'"
        by (simp add: Let_def)
      from Suc.IH [OF this] show ?thesis
        by (simp add: sl binary_frames_append) (simp add: binary_frames_def)
    next
      case (Some err)
      with Suc.prems True t have "send_loop n ch f
          (s\<lparr>now := Suc t, trace := trace s @ [Console (Warn ''Send failed, retrying chunk...'')]\<rparr>) = Some s'"
        by (simp add: Let_def)
      from Suc.IH [OF this] show ?thesis
        by (simp add: binary_frames_append) (simp add: binary_frames_def)
    qed
  qed
qed

lemma send_loop_progress:
  "send_loop n ch f s = Some s' \<Longrightarrow>
   progress (trace s') = progress (trace s) @ percents (file_size f) (offset s)"
proof (induction n arbitrary: s)
  case 0
  then show ?case by simp
next
  case (Suc n)
  show ?case
  proof (cases "offset s < file_size f")
    case False
    with Suc.prems show ?thesis
      by (auto simp: percents.simps [of "file_size f"])
  next
    case True
    then have pc: "percents (file_size f) (offset s) =
        percent (offset s + CHUNK_SIZE) (int (file_size f)) #
        percents (file_size f) (offset s + CHUNK_SIZE)"
      by (subst percents.simps) simp
    from Suc.prems True show ?thesis
    proof (cases rule: send_loop_cases)
      case (1 t)
      from Suc.IH [OF 1(3)] show ?thesis
        by (simp add: pc progress_append) (simp add: progress_def)
    next
      case (2 t err)
      from Suc.IH [OF 2(3)] show ?thesis
        by (simp add: progress_append) (simp add: progress_def)
    qed
  qed
qed

lemma send_loop_messages:
  "send_loop n ch f s = Some s' \<Longrightarrow>
   sent_messages (trace s') = sent_messages (trace s) @ map Binary (slices (content f) (offset s))"
proof (induction n arbitrary: s)
  case 0
  then show ?case by simp
next
  case (Suc n)
  show ?case
  proof (cases "offset s < file_size f")
    case False
    with Suc.prems show ?thesis
      by (auto simp: file_size_def)
  next
    case True
    then have sl: "slices (content f) (offset s) =
        Blob_slice (content f) (offset s) (offset s + CHUNK_SIZE) #
        slices (content f) (offset s + CHUNK_SIZE)"
      by (simp add: slices_step file_size_def)
    from Suc.prems True show ?thesis
    proof (cases rule: send_loop_cases)
      case (1 t)
      from Suc.IH [OF 1(3)] show ?thesis
        by (simp add: sl sent_messages_append) (simp add: sent_messages_def)
    next
      case (2 t err)
      from Suc.IH [OF 2(3)] show ?thesis
        by (simp add: sent_messages_append) (simp add: sent_messages_def)
    qed
  qed
qed


text \<open>
  The loop of \<^verbatim>\<open>script.js\<close> returns when the channel, from some time \<open>T\<close> on, is
  never full and never throws: one unit of fuel for every tick up to \<open>T\<close> and for
  every slice is enough.
\<close>

lemma wait_drain_returns:
  assumes "\<forall>t\<ge>T. bufferedAmount ch t \<le> 5 * CHUNK_SIZE" and "T - t0 < m"
  shows "\<exists>t. wait_drain m ch t0 = Some t"
  using assms(2)
proof (induction m arbitrary: t0)
  case 0
  then show ?case by simp
next
  case (Suc m)
  show ?case
  proof (cases "bufferedAmount ch t0 > 5 * CHUNK_SIZE")
    case True
    with assms(1) have "t0 < T" by (meson not_le)
    with Suc.prems have "T - Suc t0 < m" by simp
    from Suc.IH [OF this] True show ?thesis by simp
  next
    case False
    then show ?thesis by simp
  qed
qed

lemma send_loop_returns:
  assumes quiet: "\<forall>t\<ge>T. bufferedAmount ch t \<le> 5 * CHUNK_SIZE \<and> send_throws ch t = None"
    and fuel: "(T - now s) + length (slices (content f) (offset s)) < n"
  shows "\<exists>s'. send_loop n ch f s = Some s'"
  using fuel
proof (induction n arbitrary: s)
  case 0
  then show ?case by simp
next
  case (Suc n)
  show ?case
  proof (cases "offset s < file_size f")
    case False
    then show ?thesis by simp
  next
    case True
    then have len: "length (slices (content f) (offset s)) =
        Suc (length (slices (content f) (offset s + CHUNK_SIZE)))"
      by (simp add: slices_step file_size_def)
    have "T - Suc (now s) < Suc n"
      using Suc.prems by simp
    with quiet obtain t where t: "wait_drain (Suc n) ch (Suc (now s)) = Some t"
      using wait_drain_returns [of T ch "Suc (now s)" "Suc n"] by blast
    then have le: "Suc (now s) \<le> t"
      using wait_drain_Some by blast
    show ?thesis
    proof (cases "send_throws ch t")
      case None
      let ?s1 = "\<lparr>now = t, offset = offset s + CHUNK_SIZE, chunkIndex = chunkIndex s + 1,
           trace = trace s @ [Sent (Binary (Blob_slice (content f) (offset s) (offset s + CHUNK_SIZE))) t,
             Progress (percent (offset s + CHUNK_SIZE) (int (file_size f)))]\<rparr>"
      have "(T - now ?s1) + length (slices (content f) (offset ?s1)) < n"
        using Suc.prems len le by simp
      from Suc.IH [OF this] True t None show ?thesis
        by (simp add: Let_def)
    next
      case (Some err)
      with quiet have "t < T" by (metis not_le option.distinct(1))
      let ?s1 = "s\<lparr>now := Suc t, trace := trace s @ [Console (Warn ''Send failed, retrying chunk...'')]\<rparr>"
      have "(T - now ?s1) + length (slices (content f) (offset ?s1)) < n"
        using Suc.prems le \<open>t < T\<close> by simp
      from Suc.IH [OF this] True t Some show ?thesis
        by (simp add: Let_def)
    qed
  qed
qed

lemma send_loop_part_000_done:
  "\<not> offset s < file_size f \<Longrightarrow> send_loop_part_000 ch f s = Inr s"
  by (subst send_loop_part_000.simps) simp

lemma send_loop_part_000_throw:
  "offset s < file_size f \<Longrightarrow> send_throws ch (Suc (now s)) = Some err \<Longrightarrow>
   send_loop_part_000 ch f s = Inl (err, s\<lparr>now := Suc (now s)\<rparr>)"
  by (subst send_loop_part_000.simps) (simp add: Let_def)

lemma send_loop_part_000_step:
  "offset s < file_size f \<Longrightarrow> send_throws ch (Suc (now s)) = None \<Longrightarrow>
   send_loop_part_000 ch f s =
     send_loop_part_000 ch f
       \<lparr>now = Suc (now s), offset = offset s + CHUNK_SIZE, chunkIndex = chunkIndex s,
        trace = trace s @
          [Sent (Binary (Blob_slice (content f) (offset s) (offset s + CHUNK_SIZE))) (Suc (now s)),
           Progress (percent (offset s + CHUNK_SIZE) (int (file_size f)))]\<rparr>"
  by (subst send_loop_part_000.simps) (simp add: Let_def)

lemma send_loop_part_000_trace:
  "send_loop_part_000 ch f s = Inr s' \<Longrightarrow>
   binary_frames (trace s') = binary_frames (trace s) @ slices (content f) (offset s) \<and>
   progress (trace s') = progress (trace s) @ percents (file_size f) (offset s)"
proof (induction ch f s rule: send_loop_part_000.induct)
  case (1 ch f s)
  show ?case
  proof (cases "offset s < file_size f")
    case False
    with "1.prems" show ?thesis
      by (auto simp: send_loop_part_000_done file_size_def percents.simps [of "length (content f)"])
  next
    case True
    show ?thesis
    proof (cases "send_throws ch (Suc (now s))")
      case (Some err)
      with True "1.prems" show ?thesis
        by (simp add: send_loop_part_000_throw)
    next
      case None
      let ?chunk = "Blob_slice (content f) (offset s) (offset s + CHUNK_SIZE)"
      let ?pct = "percent (offset s + CHUNK_SIZE) (int (file_size f))"
      let ?s1 = "\<lparr>now = Suc (now s), offset = offset s + CHUNK_SIZE, chunkIndex = chunkIndex s,
        trace = trace s @ [Sent (Binary ?chunk) (Suc (now s)), Progress ?pct]\<rparr>"
      have run: "send_loop_part_000 ch f ?s1 = Inr s'"
        using "1.prems" send_loop_part_000_step [OF True None] by simp
      have ih: "binary_frames (trace s') = binary_frames (trace ?s1) @ slices (content f) (offset ?s1) \<and>
          progress (trace s') = progress (trace ?s1) @ percents (file_size f) (offset ?s1)"
        by (rule "1.IH" [OF True refl refl None refl refl run])
      have sl: "slices (content f) (offset s) = ?chunk # slices (content f) (offset s + CHUNK_SIZE)"
        using True by (simp add: slices_step file_size_def)
      have pc: "percents (file_size f) (offset s) = ?pct # percents (file_size f) (offset s + CHUNK_SIZE)"
        using True by (subst percents.simps) simp
      have b1: "binary_frames (trace s @ [Sent (Binary ?chunk) (Suc (now s)), Progress ?pct]) =
          binary_frames (trace s) @ [?chunk]"
        by (simp add: binary_frames_def)
      have p1: "progress (trace s @ [Sent (Binary ?chunk) (Suc (now s)), Progress ?pct]) =
          progress (trace s) @ [?pct]"
        by (simp add: progress_def)
      from ih show ?thesis
        by (simp add: sl pc b1 p1)
    qed
  qed
qed

lemma send_loop_part_000_messages:
  "send_loop_part_000 ch f s = Inr s' \<Longrightarrow>
   sent_messages (trace s') = sent_messages (trace s) @ map Binary (slices (content f) (offset s))"
proof (induction ch f s rule: send_loop_part_000.induct)
  case (1 ch f s)
  show ?case
  proof (cases "offset s < file_size f")
    case False
    with "1.prems" show ?thesis
      by (auto simp: send_loop_part_000_done file_size_def)
  next
    case True
    show ?thesis
    proof (cases "send_throws ch (Suc (now s))")
      case (Some err)
      with True "1.prems" show ?thesis
        by (simp add: send_loop_part_000_throw)
    next
      case None
      let ?chunk = "Blob_slice (content f) (offset s) (offset s + CHUNK_SIZE)"
      let ?pct = "percent (offset s + CHUNK_SIZE) (int (file_size f))"
      let ?s1 = "\<lparr>now = Suc (now s), offset = offset s + CHUNK_SIZE, chunkIndex = chunkIndex s,
        trace = trace s @ [Sent (Binary ?chunk) (Suc (now s)), Progress ?pct]\<rparr>"
      have run: "send_loop_part_000 ch f ?s1 = Inr s'"
        using "1.prems" send_loop_part_000_step [OF True None] by simp
      have ih: "sent_messages (trace s') =
          sent_messages (trace ?s1) @ map Binary (slices (content f) (offset ?s1))"
        by (rule "1.IH" [OF True refl refl None refl refl run])
      have sl: "slices (content f) (offset s) = ?chunk # slices (content f) (offset s + CHUNK_SIZE)"
        using True by (simp add: slices_step file_size_def)
      have m1: "sent_messages (trace s @ [Sent (Binary ?chunk) (Suc (now s)), Progress ?pct]) =
          sent_messages (trace s) @ [Binary ?chunk]"
        by (simp add: sent_messages_def)
      from ih show ?thesis
        by (simp add: sl m1)
    qed
  qed
qed

lemma send_loop_part_000_returns:
  "\<forall>t. send_throws ch t = None \<Longrightarrow> \<exists>s'. send_loop_part_000 ch f s = Inr s'"
proof (induction ch f s rule: send_loop_part_000.induct)
  case (1 ch f s)
  show ?case
  proof (cases "offset s < file_size f")
    case False
    then show ?thesis by (simp add: send_loop_part_000_done)
  next
    case True
    have None: "send_throws ch (Suc (now s)) = None"
      using "1.prems" by simp
    show ?thesis
      using "1.IH" [OF True refl refl None refl refl "1.prems"]
      by (simp add: send_loop_part_000_step [OF True None])
  qed
qed

lemma sendFile_Inr:
  assumes "sendFile n (Some ch) (Some f) = Some (Inr s)"
  obtains s1 where "send_loop n ch f (sender_start f) = Some s1"
    and "s = s1\<lparr>trace := trace s1 @ [Console (Log ''File sent successfully!'')]\<rparr>"
    and "send_throws ch 0 = None"
  using assms
  by (auto simp: sendFile_def sender_start_def Let_def split: option.splits)

lemma sendFile_part_000_Inr:
  assumes "sendFile_part_000 (Some ch) (Some f) = Inr s"
  obtains s1 where "send_loop_part_000 ch f (sender_start f) = Inr s1"
    and "s = s1\<lparr>trace := trace s1 @ [Console (Log ''File sent successfully!'')]\<rparr>"
    and "send_throws ch 0 = None"
  using assms
  by (auto simp: sendFile_part_000_def sender_start_def Let_def split: option.splits sum.splits)

lemma sender_start_frames [simp]:
  "binary_frames (trace (sender_start f)) = []" "progress (trace (sender_start f)) = []"
  "offset (sender_start f) = 0" "now (sender_start f) = 0"
  by (simp_all add: sender_start_def binary_frames_def progress_def metadata_def)

lemma sendFile_trace:
  assumes "sendFile n (Some ch) (Some f) = Some (Inr s) \<or>
           sendFile_part_000 (Some ch) (Some f) = Inr s"
  shows "binary_frames (trace s) = slices (content f) 0"
    and "progress (trace s) = percents (file_size f) 0"
proof -
  have "binary_frames (trace s) = slices (content f) 0 \<and>
        progress (trace s) = percents (file_size f) 0"
    using assms
  proof
    assume "sendFile n (Some ch) (Some f) = Some (Inr s)"
    then obtain s1 where run: "send_loop n ch f (sender_start f) = Some s1"
      and s: "s = s1\<lparr>trace := trace s1 @ [Console (Log ''File sent successfully!'')]\<rparr>"
      by (rule sendFile_Inr)
    from send_loop_frames [OF run] send_loop_progress [OF run] show ?thesis
      by (simp add: s binary_frames_append progress_append)
        (simp add: binary_frames_def progress_def)
  next
    assume "sendFile_part_000 (Some ch) (Some f) = Inr s"
    then obtain s1 where run: "send_loop_part_000 ch f (sender_start f) = Inr s1"
      and s: "s = s1\<lparr>trace := trace s1 @ [Console (Log ''File sent successfully!'')]\<rparr>"
      by (rule sendFile_part_000_Inr)
    from send_loop_part_000_trace [OF run] show ?thesis
      by (simp add: s binary_frames_append progress_append)
        (simp add: binary_frames_def progress_def)
  qed
  then show "binary_frames (trace s) = slices (content f) 0"
    and "progress (trace s) = percents (file_size f) 0"
    by simp_all
qed

lemma sendFile_messages:
  assumes "sendFile n (Some ch) (Some f) = Some (Inr s) \<or>
           sendFile_part_000 (Some ch) (Some f) = Inr s"
  shows "sent_messages (trace s) = metadata f # map Binary (slices (content f) 0)"
  using assms
proof
  assume "sendFile n (Some ch) (Some f) = Some (Inr s)"
  then obtain s1 where run: "send_loop n ch f (sender_start f) = Some s1"
    and s: "s = s1\<lparr>trace := trace s1 @ [Console (Log ''File sent successfully!'')]\<rparr>"
    by (rule sendFile_Inr)
  from send_loop_messages [OF run] show ?thesis
    by (simp add: s sent_messages_append) (simp add: sent_messages_def sender_start_def)
next
  assume "sendFile_part_000 (Some ch) (Some f) = Inr s"
  then obtain s1 where run: "send_loop_part_000 ch f (sender_start f) = Inr s1"
    and s: "s = s1\<lparr>trace := trace s1 @ [Console (Log ''File sent successfully!'')]\<rparr>"
    by (rule sendFile_part_000_Inr)
  from send_loop_part_000_messages [OF run] show ?thesis
    by (simp add: s sent_messages_append) (simp add: sent_messages_def sender_start_def)
qed

lemma sendFile_returns:
  assumes "send_throws ch 0 = None"
    and "\<forall>t\<ge>T. bufferedAmount ch t \<le> 5 * CHUNK_SIZE \<and> send_throws ch t = None"
    and "T + length (slices (content f) 0) < n"
  shows "\<exists>s. sendFile n (Some ch) (Some f) = Some (Inr s)"
proof -
  have "(T - now (sender_start f)) + length (slices (content f) (offset (sender_start f))) < n"
    using assms(3) by simp
  from send_loop_returns [OF assms(2) this]
  obtain s1 where "send_loop n ch f (sender_start f) = Some s1" by blast
  with assms(1) show ?thesis
    by (simp add: sendFile_def sender_start_def Let_def)
qed

lemma sendFile_part_000_returns:
  assumes "\<forall>t. send_throws ch t = None"
  shows "\<exists>s. sendFile_part_000 (Some ch) (Some f) = Inr s"
proof -
  from send_loop_part_000_returns [OF assms]
  obtain s1 where "send_loop_part_000 ch f (sender_start f) = Inr s1" by blast
  with assms show ?thesis
    by (simp add: sendFile_part_000_def sender_start_def Let_def)
qed

subsection \<open>Runs on the example channels\<close>

lemma wait_drain_numeral:
  "wait_drain (numeral k) ch t =
     (if 5 * CHUNK_SIZE < bufferedAmount ch t then wait_drain (pred_numeral k) ch (Suc t) else Some t)"
  by (simp add: numeral_eq_Suc)

lemma send_loop_Suc:
  "send_loop (Suc n) ch f s =
     (if offset s < file_size f then
        (case wait_drain (Suc n) ch (Suc (now s)) of
           None \<Rightarrow> None
         | Some t \<Rightarrow>
             (case send_throws ch t of
                None \<Rightarrow>
                  send_loop n ch f
                    \<lparr>now = t, offset = offset s + CHUNK_SIZE, chunkIndex = chunkIndex s + 1,
                     trace = trace s @
                       [Sent (Binary (Blob_slice (content f) (offset s) (offset s + CHUNK_SIZE))) t,
                        Progress (percent (offset s + CHUNK_SIZE) (int (file_size f)))]\<rparr>
              | Some err \<Rightarrow>
                  send_loop n ch f
                    (s\<lparr>now := Suc t,
                       trace := trace s @ [Console (Warn ''Send failed, retrying chunk...'')]\<rparr>)))
      else Some s)"
  by (simp add: Let_def split: option.splits)

lemma send_loop_numeral:
  "send_loop (numeral k) ch f s =
     (if offset s < file_size f then
        (case wait_drain (numeral k) ch (Suc (now s)) of
           None \<Rightarrow> None
         | Some t \<Rightarrow>
             (case send_throws ch t of
                None \<Rightarrow>
                  send_loop (pred_numeral k) ch f
                    \<lparr>now = t, offset = offset s + CHUNK_SIZE, chunkIndex = chunkIndex s + 1,
                     trace = trace s @
                       [Sent (Binary (Blob_slice (content f) (offset s) (offset s + CHUNK_SIZE))) t,
                        Progress (percent (offset s + CHUNK_SIZE) (int (file_size f)))]\<rparr>
              | Some err \<Rightarrow>
                  send_loop (pred_numeral k) ch f
                    (s\<lparr>now := Suc t,
                       trace := trace s @ [Console (Warn ''Send failed, retrying chunk...'')]\<rparr>)))
      else Some s)"
  by (simp only: numeral_eq_Suc send_loop_Suc)

lemma flaky_run:
  "sendFile 5 (Some flaky_channel) (Some small_file) =
     Some (Inr \<lparr>now = 5, offset = 16384, chunkIndex = 1,
       trace = [Console (Sending ''a.txt'' 3),
                Sent (Text (JSON_object (Some ''a.txt'') (Some 3))) 0,
                Console (Warn ''Send failed, retrying chunk...''),
                Sent (Binary [1, 2, 3]) 5,
                Progress (Num 546133),
                Console (Log ''File sent successfully!'')]\<rparr>)"
  by (simp add: sendFile_def send_loop_numeral wait_drain_numeral flaky_channel_def small_file_def metadata_def file_size_def
      Blob_slice_def percent_def CHUNK_SIZE_def Let_def)


lemma large_file_size: "file_size large_file = 40000" "length (content large_file) = 40000"
  by (simp_all only: large_file_def file_size_def File.simps length_replicate)

lemma large_file_count: "nat \<lceil>real (file_size large_file) / real CHUNK_SIZE\<rceil> = 3"
  by (simp add: ceil_div large_file_size CHUNK_SIZE_def)

lemma upt_0_3: "[0..<3] = [0, 1, 2]"
  by (simp add: numeral_3_eq_3)

lemma small_file_count: "nat \<lceil>real (file_size small_file) / real CHUNK_SIZE\<rceil> = 1"
  by (simp add: ceil_div small_file_def file_size_def CHUNK_SIZE_def)

lemma idle_quiet:
  "send_throws idle_channel 0 = None"
  "\<forall>t\<ge>0. bufferedAmount idle_channel t \<le> 5 * CHUNK_SIZE \<and> send_throws idle_channel t = None"
  "\<forall>t. send_throws idle_channel t = None"
  by (simp_all add: idle_channel_def)

subsection \<open>The frames of a transfer\<close>

text \<open>
  Claim C1. When \<^verbatim>\<open>sendFile\<close> returns, in either copy, the binary frames it has
  written are the slices of the file at the offsets \<open>0\<close>, \<open>CHUNK_SIZE\<close>,
  \<open>2 * CHUNK_SIZE\<close>, ... in this order: there are \<open>\<lceil>S / CHUNK_SIZE\<rceil>\<close> of them for a
  file of \<open>S\<close> bytes, with \<open>CHUNK_SIZE = 16384\<close>, their lengths add up to \<open>S\<close> and
  their concatenation is the file. And \<^verbatim>\<open>sendFile\<close> does return: in \<^verbatim>\<open>script.js\<close>
  with enough fuel when the metadata can be sent and the channel is, from some time on,
  never full and never throws; in \<^verbatim>\<open>part_000\<close> when \<^verbatim>\<open>dc.send\<close> never throws.
\<close>

theorem sendFile_frames:
  "(sendFile n (Some ch) (Some f) = Some (Inr s) \<or>
    sendFile_part_000 (Some ch) (Some f) = Inr s \<longrightarrow>
      CHUNK_SIZE = 16384 \<and>
      binary_frames (trace s) =
        map (\<lambda>k. Blob_slice (content f) (k * CHUNK_SIZE) (k * CHUNK_SIZE + CHUNK_SIZE))
          [0..<nat \<lceil>real (file_size f) / real CHUNK_SIZE\<rceil>] \<and>
      length (binary_frames (trace s)) = nat \<lceil>real (file_size f) / real CHUNK_SIZE\<rceil> \<and>
      sum_list (map length (binary_frames (trace s))) = file_size f \<and>
      concat (binary_frames (trace s)) = content f) \<and>
   (send_throws ch 0 = None \<and>
    (\<forall>t\<ge>T. bufferedAmount ch t \<le> 5 * CHUNK_SIZE \<and> send_throws ch t = None) \<longrightarrow>
      (\<exists>n s. sendFile n (Some ch) (Some f) = Some (Inr s))) \<and>
   ((\<forall>t. send_throws ch t = None) \<longrightarrow>
      (\<exists>s. sendFile_part_000 (Some ch) (Some f) = Inr s))"
proof (intro conjI impI)
  assume run: "sendFile n (Some ch) (Some f) = Some (Inr s) \<or>
    sendFile_part_000 (Some ch) (Some f) = Inr s"
  have fr: "binary_frames (trace s) = slices (content f) 0"
    by (rule sendFile_trace(1) [OF run])
  show "CHUNK_SIZE = 16384"
    by (simp add: CHUNK_SIZE_def)
  show "binary_frames (trace s) =
        map (\<lambda>k. Blob_slice (content f) (k * CHUNK_SIZE) (k * CHUNK_SIZE + CHUNK_SIZE))
          [0..<nat \<lceil>real (file_size f) / real CHUNK_SIZE\<rceil>]"
    unfolding fr file_size_def by (rule slices_0)
  show "length (binary_frames (trace s)) = nat \<lceil>real (file_size f) / real CHUNK_SIZE\<rceil>"
    unfolding fr file_size_def by (subst slices_0) simp
  show "sum_list (map length (binary_frames (trace s))) = file_size f"
    unfolding fr by (simp add: length_slice_sum file_size_def)
  show "concat (binary_frames (trace s)) = content f"
    unfolding fr by (simp add: concat_slices)
next
  assume "send_throws ch 0 = None \<and>
    (\<forall>t\<ge>T. bufferedAmount ch t \<le> 5 * CHUNK_SIZE \<and> send_throws ch t = None)"
  then show "\<exists>n s. sendFile n (Some ch) (Some f) = Some (Inr s)"
    using sendFile_returns [of ch T f "Suc (T + length (slices (content f) 0))"] by blast
next
  assume "\<forall>t. send_throws ch t = None"
  then show "\<exists>s. sendFile_part_000 (Some ch) (Some f) = Inr s"
    by (rule sendFile_part_000_returns)
qed

text \<open>
  Witness for C1: a file of three bytes over the channel that is full twice and throws
  once is sent as one frame; the file of 40000 bytes is sent over the idle channel, by
  both copies, in three frames of 16384, 16384 and 7232 bytes.
\<close>

theorem sendFile_frames_witness:
  "(\<exists>s. sendFile 5 (Some flaky_channel) (Some small_file) = Some (Inr s) \<and>
        binary_frames (trace s) = [[1, 2, 3]]) \<and>
   (\<exists>n s. sendFile n (Some idle_channel) (Some large_file) = Some (Inr s) \<and>
        map length (binary_frames (trace s)) = [16384, 16384, 7232] \<and>
        length (binary_frames (trace s)) = 3 \<and>
        sum_list (map length (binary_frames (trace s))) = 40000 \<and>
        concat (binary_frames (trace s)) = content large_file) \<and>
   (\<exists>s. sendFile_part_000 (Some idle_channel) (Some large_file) = Inr s \<and>
        map length (binary_frames (trace s)) = [16384, 16384, 7232])"
proof (intro conjI)
  obtain s where run: "sendFile 5 (Some flaky_channel) (Some small_file) = Some (Inr s)"
    using flaky_run by blast
  then have "sendFile 5 (Some flaky_channel) (Some small_file) = Some (Inr s) \<or>
      sendFile_part_000 (Some flaky_channel) (Some small_file) = Inr s" ..
  with sendFile_frames [of 5 flaky_channel small_file s 0, THEN conjunct1]
  have "binary_frames (trace s) =
      map (\<lambda>k. Blob_slice (content small_file) (k * CHUNK_SIZE) (k * CHUNK_SIZE + CHUNK_SIZE))
        [0..<nat \<lceil>real (file_size small_file) / real CHUNK_SIZE\<rceil>]"
    by (elim impE conjE)
  then have "binary_frames (trace s) = [[1, 2, 3]]"
    by (simp add: small_file_count) (simp add: small_file_def Blob_slice_def CHUNK_SIZE_def)
  with run show "\<exists>s. sendFile 5 (Some flaky_channel) (Some small_file) = Some (Inr s) \<and>
        binary_frames (trace s) = [[1, 2, 3]]"
    by - (rule exI [of _ s], simp)
next
  have "\<exists>n s. sendFile n (Some idle_channel) (Some large_file) = Some (Inr s)"
    using sendFile_frames [of 0 idle_channel large_file "sender_start large_file" 0,
        THEN conjunct2, THEN conjunct1] idle_quiet(1,2)
    by (elim impE) (rule conjI)
  then obtain n s where run: "sendFile n (Some idle_channel) (Some large_file) = Some (Inr s)"
    by (elim exE)
  then have "sendFile n (Some idle_channel) (Some large_file) = Some (Inr s) \<or>
      sendFile_part_000 (Some idle_channel) (Some large_file) = Inr s" ..
  note sendFile_frames [of n idle_channel large_file s 0, THEN conjunct1, THEN mp, OF this]
  then have facts: "binary_frames (trace s) =
      map (\<lambda>k. Blob_slice (content large_file) (k * CHUNK_SIZE) (k * CHUNK_SIZE + CHUNK_SIZE))
        [0..<nat \<lceil>real (file_size large_file) / real CHUNK_SIZE\<rceil>]"
    "length (binary_frames (trace s)) = nat \<lceil>real (file_size large_file) / real CHUNK_SIZE\<rceil>"
    "sum_list (map length (binary_frames (trace s))) = file_size large_file"
    "concat (binary_frames (trace s)) = content large_file"
    by blast+
  have "map length (binary_frames (trace s)) = [16384, 16384, 7232]"
    unfolding facts(1) large_file_count
    by (simp add: large_file_size Blob_slice_def CHUNK_SIZE_def upt_0_3)
  moreover have "length (binary_frames (trace s)) = 3"
    using facts(2) by (simp only: large_file_count)
  moreover have "sum_list (map length (binary_frames (trace s))) = 40000"
    using facts(3) by (simp only: large_file_size)
  ultimately show "\<exists>n s. sendFile n (Some idle_channel) (Some large_file) = Some (Inr s) \<and>
        map length (binary_frames (trace s)) = [16384, 16384, 7232] \<and>
        length (binary_frames (trace s)) = 3 \<and>
        sum_list (map length (binary_frames (trace s))) = 40000 \<and>
        concat (binary_frames (trace s)) = content large_file"
    using run facts(4) by - (rule exI [of _ n], rule exI [of _ s], simp)
next
  have "\<exists>s. sendFile_part_000 (Some idle_channel) (Some large_file) = Inr s"
    using sendFile_frames [of 0 idle_channel large_file "sender_start large_file" 0,
        THEN conjunct2, THEN conjunct2] idle_quiet(3)
    by (elim impE)
  then obtain s where run: "sendFile_part_000 (Some idle_channel) (Some large_file) = Inr s"
    by (elim exE)
  then have "sendFile 0 (Some idle_channel) (Some large_file) = Some (Inr s) \<or>
      sendFile_part_000 (Some idle_channel) (Some large_file) = Inr s" ..
  with sendFile_frames [of 0 idle_channel large_file s 0, THEN conjunct1]
  have "binary_frames (trace s) =
      map (\<lambda>k. Blob_slice (content large_file) (k * CHUNK_SIZE) (k * CHUNK_SIZE + CHUNK_SIZE))
        [0..<nat \<lceil>real (file_size large_file) / real CHUNK_SIZE\<rceil>]"
    by (elim impE conjE)
  then have "map length (binary_frames (trace s)) = [16384, 16384, 7232]"
    unfolding large_file_count
    by (simp add: large_file_size Blob_slice_def CHUNK_SIZE_def upt_0_3)
  with run show "\<exists>s. sendFile_part_000 (Some idle_channel) (Some large_file) = Inr s \<and>
        map length (binary_frames (trace s)) = [16384, 16384, 7232]"
    by - (rule exI [of _ s], simp)
qed

subsection \<open>The percentages of the sender\<close>

text \<open>
  The percentages of a finished run, in both copies: after the \<open>j\<close>-th chunk the
  script writes \<open>\<lfloor>j * CHUNK_SIZE * 100 / S\<rfloor>\<close>. For a file whose size is a multiple
  of \<open>CHUNK_SIZE\<close> the last percentage is 100.
\<close>

lemma percents_map:
  assumes "k \<le> n" and "n = (sz + CHUNK_SIZE - 1) div CHUNK_SIZE"
  shows "percents sz (k * CHUNK_SIZE) =
    map (\<lambda>j. percent (j * CHUNK_SIZE) (int sz)) [Suc k..<Suc n]"
  using assms
proof (induction k rule: inc_induct)
  case base
  have "\<not> n * CHUNK_SIZE < sz"
    using below_count [of CHUNK_SIZE n sz] base by simp
  then show ?case by (subst percents.simps) simp
next
  case (step k)
  have "k * CHUNK_SIZE < sz"
    using below_count [of CHUNK_SIZE k sz] step by simp
  then have unfold: "percents sz (k * CHUNK_SIZE) =
      percent (Suc k * CHUNK_SIZE) (int sz) # percents sz (Suc k * CHUNK_SIZE)"
    by (subst percents.simps) (simp add: add.commute)
  have upt: "[Suc k..<Suc n] = Suc k # [Suc (Suc k)..<Suc n]"
    using step.hyps by (simp add: upt_conv_Cons del: upt_Suc)
  show ?case
    by (simp only: unfold upt step.IH [OF step.prems] list.map)
qed

lemma sendFile_progress:
  assumes "sendFile n (Some ch) (Some f) = Some (Inr s) \<or>
           sendFile_part_000 (Some ch) (Some f) = Inr s"
    and "0 < file_size f"
  shows "progress (trace s) =
    map (\<lambda>j. Num (int (j * CHUNK_SIZE * 100) div int (file_size f)))
      [1..<Suc (nat \<lceil>real (file_size f) / real CHUNK_SIZE\<rceil>)]"
proof -
  have "progress (trace s) = percents (file_size f) 0"
    by (rule sendFile_trace(2) [OF assms(1)])
  also have "\<dots> = map (\<lambda>j. percent (j * CHUNK_SIZE) (int (file_size f)))
      [1..<Suc ((file_size f + CHUNK_SIZE - 1) div CHUNK_SIZE)]"
    using percents_map [of 0 "(file_size f + CHUNK_SIZE - 1) div CHUNK_SIZE" "file_size f"]
    by simp
  also have "\<dots> = map (\<lambda>j. Num (int (j * CHUNK_SIZE * 100) div int (file_size f)))
      [1..<Suc (nat \<lceil>real (file_size f) / real CHUNK_SIZE\<rceil>)]"
    using assms(2) by (simp add: percent_def ceil_div)
  finally show ?thesis .
qed

lemma sendFile_progress_aligned:
  assumes "sendFile n (Some ch) (Some f) = Some (Inr s) \<or>
           sendFile_part_000 (Some ch) (Some f) = Inr s"
    and "0 < file_size f" and "CHUNK_SIZE dvd file_size f"
  shows "last (progress (trace s)) = Num 100"
proof -
  from assms(3) obtain m where m: "file_size f = CHUNK_SIZE * m" ..
  with assms(2) have mpos: "0 < m" by (cases m) simp_all
  have cnt: "nat \<lceil>real (file_size f) / real CHUNK_SIZE\<rceil> = m"
    by (simp add: ceil_div m)
  have "progress (trace s) =
      map (\<lambda>j. Num (int (j * CHUNK_SIZE * 100) div int (file_size f))) [1..<Suc m]"
    using sendFile_progress [OF assms(1,2)] by (simp only: cnt)
  then have "last (progress (trace s)) = Num (int (m * CHUNK_SIZE * 100) div int (file_size f))"
    using mpos by (simp add: last_map)
  also have "int (m * CHUNK_SIZE * 100) div int (file_size f) = 100"
    using mpos by (simp add: m)
  finally show ?thesis .
qed

text \<open>
  Claim C3, at the file of 40000 bytes on the idle channel, in both copies: the
  percentages written are 40, 81 and 122. The script computes them from \<^verbatim>\<open>offset\<close>,
  which it advances by \<open>CHUNK_SIZE\<close> after every chunk, also after the last, shorter
  one: 49152 of 40000 bytes are 122 percent. (The doubles of the script give the same
  three integers: 40.96, 81.92 and 122.88 are far from the next integer.)
\<close>

theorem sendFile_progress_overshoot:
  "(\<exists>s. sendFile 4 (Some idle_channel) (Some large_file) = Some (Inr s) \<and>
        progress (trace s) = [Num 40, Num 81, Num 122]) \<and>
   (\<exists>s. sendFile_part_000 (Some idle_channel) (Some large_file) = Inr s \<and>
        progress (trace s) = [Num 40, Num 81, Num 122])"
proof -
  have len: "length (slices (content large_file) 0) = 3"
    using large_file_count by (simp add: slices_0 file_size_def)
  have pcs: "percents (file_size large_file) 0 = [Num 40, Num 81, Num 122]"
    by (simp add: percents.simps percent_def large_file_size CHUNK_SIZE_def)
  obtain s where run: "sendFile 4 (Some idle_channel) (Some large_file) = Some (Inr s)"
    using sendFile_returns [of idle_channel 0 large_file 4] idle_quiet len by auto
  obtain s' where run': "sendFile_part_000 (Some idle_channel) (Some large_file) = Inr s'"
    using sendFile_part_000_returns [of idle_channel large_file] idle_quiet by auto
  have "progress (trace s) = [Num 40, Num 81, Num 122]"
    using sendFile_trace(2) [of 4 idle_channel large_file s] run pcs by simp
  moreover have "progress (trace s') = [Num 40, Num 81, Num 122]"
    using sendFile_trace(2) [of 0 idle_channel large_file s'] run' pcs by simp
  ultimately show ?thesis
    using run run' by simp
qed

subsection \<open>Flow control\<close>




subsection \<open>Streams of binary frames\<close>

lemma foldl_length: "foldl (\<lambda>a b. a + length b) a cs = a + length (concat cs)"
  by (induction cs arbitrary: a) simp_all

lemma receivedSize_concat: "receivedSize cs = length (concat cs)"
  by (simp add: receivedSize_def foldl_length)

lemma downloads_append: "downloads (xs @ ys) = downloads xs @ downloads ys"
  by (simp add: downloads_def)

lemma handle_binary:
  "handleIncomingChunk (Binary b) r =
     (None,
      r\<lparr>receivedChunks := receivedChunks r @ [b],
        events := events r @
          Progress (case expectedSize r of None \<Rightarrow> NaN
                    | Some e \<Rightarrow> percent (receivedSize (receivedChunks r @ [b])) e) #
          (if reached (receivedSize (receivedChunks r @ [b])) (expectedSize r)
           then [Download (concat (receivedChunks r @ [b])) (download_name (expectedName r)),
                 Console (Log ''File received and saved.'')]
           else [])\<rparr>)"
  by (simp add: Let_def saveReceivedFile_def)

lemma handle_binary_fields:
  "fst (handleIncomingChunk (Binary b) r) = None"
  "receivedChunks (snd (handleIncomingChunk (Binary b) r)) = receivedChunks r @ [b]"
  "expectedName (snd (handleIncomingChunk (Binary b) r)) = expectedName r"
  "expectedSize (snd (handleIncomingChunk (Binary b) r)) = expectedSize r"
  "downloads (events (snd (handleIncomingChunk (Binary b) r))) =
     downloads (events r) @
     (if reached (receivedSize (receivedChunks r @ [b])) (expectedSize r)
      then [(concat (receivedChunks r @ [b]), download_name (expectedName r))] else [])"
  unfolding handle_binary by (simp_all add: downloads_def)

lemma deliver_snoc: "deliver (ms @ [m]) r = snd (handleIncomingChunk m (deliver ms r))"
  by (simp add: deliver_append)

lemma deliver_binary_fields:
  "receivedChunks (deliver (map Binary bs) r) = receivedChunks r @ bs \<and>
   expectedName (deliver (map Binary bs) r) = expectedName r \<and>
   expectedSize (deliver (map Binary bs) r) = expectedSize r"
proof (induction bs rule: rev_induct)
  case Nil
  then show ?case by simp
next
  case (snoc b bs)
  then show ?case
    by (simp add: deliver_snoc handle_binary_fields del: handleIncomingChunk.simps)
qed

lemma completions_snoc:
  "completions r (bs @ [b]) =
     completions r bs @
     (if reached (receivedSize (receivedChunks r @ bs @ [b])) (expectedSize r)
      then [(concat (receivedChunks r @ bs @ [b]), download_name (expectedName r))] else [])"
proof -
  have up: "[1..<Suc (length (bs @ [b]))] = [1..<Suc (length bs)] @ [Suc (length bs)]"
    by simp
  have inner: "k \<in> set [1..<Suc (length bs)] \<Longrightarrow> take k (bs @ [b]) = take k bs" for k
    by auto
  have f: "filter (\<lambda>k. reached (receivedSize (receivedChunks r @ take k (bs @ [b]))) (expectedSize r))
        [1..<Suc (length bs)] =
      filter (\<lambda>k. reached (receivedSize (receivedChunks r @ take k bs)) (expectedSize r))
        [1..<Suc (length bs)]"
    by (rule filter_cong [OF refl]) (simp only: inner)
  have m: "map (\<lambda>k. (concat (receivedChunks r @ take k (bs @ [b])), download_name (expectedName r)))
        (filter (\<lambda>k. reached (receivedSize (receivedChunks r @ take k bs)) (expectedSize r))
          [1..<Suc (length bs)]) =
      map (\<lambda>k. (concat (receivedChunks r @ take k bs), download_name (expectedName r)))
        (filter (\<lambda>k. reached (receivedSize (receivedChunks r @ take k bs)) (expectedSize r))
          [1..<Suc (length bs)])"
  proof (rule map_cong [OF refl])
    fix k
    assume "k \<in> set (filter (\<lambda>k. reached (receivedSize (receivedChunks r @ take k bs)) (expectedSize r))
          [1..<Suc (length bs)])"
    then have "k \<in> set [1..<Suc (length bs)]"
      by (simp only: set_filter mem_Collect_eq)
    then show "(concat (receivedChunks r @ take k (bs @ [b])), download_name (expectedName r)) =
        (concat (receivedChunks r @ take k bs), download_name (expectedName r))"
      by (simp only: inner)
  qed
  show ?thesis
    unfolding completions_def up filter_append map_append f m
    by simp
qed

lemma deliver_binary_downloads:
  "downloads (events (deliver (map Binary bs) r)) = downloads (events r) @ completions r bs"
proof (induction bs rule: rev_induct)
  case Nil
  then show ?case by (simp add: completions_def)
next
  case (snoc b bs)
  have "deliver (map Binary (bs @ [b])) r =
      snd (handleIncomingChunk (Binary b) (deliver (map Binary bs) r))"
    by (simp add: deliver_snoc del: handleIncomingChunk.simps)
  then show ?case
    by (simp add: handle_binary_fields(5) deliver_binary_fields snoc.IH completions_snoc
        del: handleIncomingChunk.simps)
qed



subsection \<open>From sender to receiver\<close>

text \<open>
  A file that is not empty arrives: the messages of a finished \<^verbatim>\<open>sendFile\<close>,
  delivered in order to a receiver in its first state, save one file, the bytes of the
  original under its name (\<^verbatim>\<open>download.bin\<close> for an empty name). The size is reached
  with the last slice and not before.
\<close>

lemma reached_slices:
  assumes "1 \<le> k" and "k \<le> length (slices xs 0)"
  shows "reached (receivedSize (take k (slices xs 0))) (Some (int (length xs))) \<longleftrightarrow>
         k = length (slices xs 0)"
proof -
  have "reached (receivedSize (take k (slices xs 0))) (Some (int (length xs))) \<longleftrightarrow>
      \<not> k * CHUNK_SIZE < length xs"
    by (auto simp: reached_def receivedSize_concat concat_take_slices)
  also have "\<dots> \<longleftrightarrow> \<not> k < length (slices xs 0)"
    using below_count [of CHUNK_SIZE k "length xs"] by (simp add: length_slices_0)
  also have "\<dots> \<longleftrightarrow> k = length (slices xs 0)"
    using assms by auto
  finally show ?thesis .
qed

lemma filter_last: "1 \<le> n \<Longrightarrow> filter (\<lambda>k. k = n) [1..<Suc n] = [n]"
  by (induction n) auto

lemma transfer_roundtrip:
  assumes run: "sendFile n (Some ch) (Some f) = Some (Inr s) \<or>
           sendFile_part_000 (Some ch) (Some f) = Inr s"
    and pos: "0 < file_size f"
  shows "downloads (events (deliver (sent_messages (trace s)) receiver_start)) =
           [(content f, download_name (Some (name f)))]"
proof -
  let ?bs = "slices (content f) 0"
  let ?r1 = "snd (handleIncomingChunk (metadata f) receiver_start)"
  have r1: "receivedChunks ?r1 = []" "expectedName ?r1 = Some (name f)"
    "expectedSize ?r1 = Some (int (length (content f)))" "downloads (events ?r1) = []"
    by (simp_all add: metadata_def receiver_start_def downloads_def file_size_def)
  have n1: "1 \<le> length ?bs"
    using pos below_count [of CHUNK_SIZE 0 "length (content f)"]
    by (simp add: length_slices_0 file_size_def)
  have "filter (\<lambda>k. reached (receivedSize (take k ?bs)) (Some (int (length (content f)))))
        [1..<Suc (length ?bs)] =
      filter (\<lambda>k. k = length ?bs) [1..<Suc (length ?bs)]"
  proof (rule filter_cong [OF refl])
    fix k
    assume "k \<in> set [1..<Suc (length ?bs)]"
    then have "1 \<le> k" "k \<le> length ?bs"
      by auto
    then show "reached (receivedSize (take k ?bs)) (Some (int (length (content f)))) =
        (k = length ?bs)"
      by (rule reached_slices)
  qed
  then have flt: "filter (\<lambda>k. reached (receivedSize (take k ?bs)) (Some (int (length (content f)))))
        [1..<Suc (length ?bs)] = [length ?bs]"
    by (simp only: filter_last [OF n1])
  have "completions ?r1 ?bs =
      map (\<lambda>k. (concat (take k ?bs), download_name (Some (name f))))
        (filter (\<lambda>k. reached (receivedSize (take k ?bs)) (Some (int (length (content f)))))
          [1..<Suc (length ?bs)])"
    by (simp only: completions_def r1 append_Nil)
  also have "\<dots> = [(concat ?bs, download_name (Some (name f)))]"
    by (simp only: flt) simp
  finally have "completions ?r1 ?bs = [(concat ?bs, download_name (Some (name f)))]" .
  then have "downloads (events (deliver (map Binary ?bs) ?r1)) =
      [(content f, download_name (Some (name f)))]"
    by (simp add: deliver_binary_downloads r1 concat_slices)
  then show ?thesis
    by (simp add: sendFile_messages [OF run] del: handleIncomingChunk.simps)
qed

text \<open>
  Claim C2, at the empty file: \<^verbatim>\<open>sendFile\<close>, in both copies, sends the metadata and
  no binary frame, since its loop is not entered; the receiver compares sizes only in
  the branch of a binary frame, so it saves nothing: the transfer of an empty file never
  completes.
\<close>

theorem empty_file_never_completes:
  "(\<exists>s. sendFile 1 (Some idle_channel) (Some empty_file) = Some (Inr s) \<and>
        sent_messages (trace s) = [Text (JSON_object (Some ''empty.txt'') (Some 0))] \<and>
        downloads (events (deliver (sent_messages (trace s)) receiver_start)) = []) \<and>
   (\<exists>s. sendFile_part_000 (Some idle_channel) (Some empty_file) = Inr s \<and>
        sent_messages (trace s) = [Text (JSON_object (Some ''empty.txt'') (Some 0))] \<and>
        downloads (events (deliver (sent_messages (trace s)) receiver_start)) = [])"
proof -
  have run: "sendFile 1 (Some idle_channel) (Some empty_file) =
      Some (Inr \<lparr>now = 0, offset = 0, chunkIndex = 0,
        trace = [Console (Sending ''empty.txt'' 0),
                 Sent (Text (JSON_object (Some ''empty.txt'') (Some 0))) 0,
                 Console (Log ''File sent successfully!'')]\<rparr>)"
    by (simp add: sendFile_def idle_channel_def empty_file_def metadata_def file_size_def)
  have run': "sendFile_part_000 (Some idle_channel) (Some empty_file) =
      Inr \<lparr>now = 0, offset = 0, chunkIndex = 0,
        trace = [Console (Sending ''empty.txt'' 0),
                 Sent (Text (JSON_object (Some ''empty.txt'') (Some 0))) 0,
                 Console (Log ''File sent successfully!'')]\<rparr>"
    by (simp add: sendFile_part_000_def idle_channel_def empty_file_def metadata_def file_size_def
        send_loop_part_000_done)
  have rcv: "downloads (events (deliver [Text (JSON_object (Some ''empty.txt'') (Some 0))]
      receiver_start)) = []"
    by (simp add: receiver_start_def downloads_def)
  show ?thesis
    unfolding run run' by (simp add: sent_messages_def receiver_start_def downloads_def)
qed

subsection \<open>Completion\<close>

text \<open>
  Claim C4, as the code has it. A binary frame is always appended and never rejected.
  It saves a file exactly when the running total has reached \<^verbatim>\<open>expectedSize\<close>: the
  concatenation of all chunks held, under the declared name or \<^verbatim>\<open>download.bin\<close>.
  Nothing closes the accumulator after that: over a run of binary frames, every frame
  from the completing one on saves a file again, each time with all chunks so far.
\<close>

theorem completion_emits_download:
  "fst (handleIncomingChunk (Binary b) r) = None \<and>
   receivedChunks (snd (handleIncomingChunk (Binary b) r)) = receivedChunks r @ [b] \<and>
   downloads (events (snd (handleIncomingChunk (Binary b) r))) =
     downloads (events r) @
     (if reached (receivedSize (receivedChunks r @ [b])) (expectedSize r)
      then [(concat (receivedChunks r @ [b]), download_name (expectedName r))] else []) \<and>
   receivedChunks (deliver (map Binary bs) r) = receivedChunks r @ bs \<and>
   downloads (events (deliver (map Binary bs) r)) =
     downloads (events r) @
     map (\<lambda>k. (concat (receivedChunks r @ take k bs), download_name (expectedName r)))
       (filter (\<lambda>k. reached (receivedSize (receivedChunks r @ take k bs)) (expectedSize r))
          [1..<Suc (length bs)])"
  using deliver_binary_downloads [of bs r] deliver_binary_fields [of bs r]
  by (simp add: handle_binary_fields completions_def del: handleIncomingChunk.simps)

text \<open>
  Counterexample to C4: metadata for three bytes, a frame of three bytes and one more
  frame. The second frame is appended and the file is saved a second time, now with
  four bytes.
\<close>

theorem completion_not_latched:
  "downloads (events (deliver [Text (JSON_object (Some ''a.txt'') (Some 3)),
                               Binary [1, 2, 3], Binary [4]] receiver_start)) =
     [([1, 2, 3], ''a.txt''), ([1, 2, 3, 4], ''a.txt'')] \<and>
   receivedChunks (deliver [Text (JSON_object (Some ''a.txt'') (Some 3)),
                            Binary [1, 2, 3], Binary [4]] receiver_start) =
     [[1, 2, 3], [4]]"
  by (simp add: receiver_start_def receivedSize_def reached_def percent_def
      saveReceivedFile_def download_name_def downloads_def Let_def)

subsection \<open>Text frames\<close>



subsection \<open>The branches of handleSignal\<close>

lemma handleSignal_session_joined:
  "msg_type msg = ''session-joined'' \<Longrightarrow>
   handleSignal api msg c =
     (case createOffer api (pc c) of
        Inl err \<Rightarrow> (Some err, log' ''Receiver connected, sending offer...'' c)
      | Inr offer_sdp \<Rightarrow>
          (case setLocalDescription api (Offer, offer_sdp) (pc c) of
             Inl err \<Rightarrow> (Some err, log' ''Receiver connected, sending offer...'' c)
           | Inr p \<Rightarrow>
               (None,
                ws_send \<lparr>msg_type = ''offer'', msg_sdp = Some offer_sdp,
                         msg_candidate = None, msg_sessionId = sessionId c\<rparr>
                  ((log' ''Receiver connected, sending offer...'' c)\<lparr>pc := p\<rparr>))))"
  by (simp add: handleSignal_def Let_def log'_def split: sum.splits)

lemma handleSignal_offer:
  "msg_type msg = ''offer'' \<Longrightarrow> msg_sdp msg = Some s \<Longrightarrow> s \<noteq> [] \<Longrightarrow>
   handleSignal api msg c =
     (if dc c then (None, warn ''Ignoring duplicate offer on sender side'' c)
      else
        (case setRemoteDescription api (Offer, s) (pc c) of
           Inl err \<Rightarrow> (Some err, log' ''Received offer from sender'' c)
         | Inr p1 \<Rightarrow>
             (case createAnswer api p1 of
                Inl err \<Rightarrow> (Some err, (log' ''Received offer from sender'' c)\<lparr>pc := p1\<rparr>)
              | Inr answer_sdp \<Rightarrow>
                  (case setLocalDescription api (Answer, answer_sdp) p1 of
                     Inl err \<Rightarrow> (Some err, (log' ''Received offer from sender'' c)\<lparr>pc := p1\<rparr>)
                   | Inr p2 \<Rightarrow>
                       (None,
                        log' ''Answer sent back to sender''
                          (ws_send \<lparr>msg_type = ''answer'', msg_sdp = Some answer_sdp,
                                    msg_candidate = None, msg_sessionId = sessionId c\<rparr>
                             ((log' ''Received offer from sender'' c)\<lparr>pc := p2\<rparr>)))))))"
  by (simp add: handleSignal_def Let_def log'_def truthy_def split: sum.splits)

lemma handleSignal_answer:
  "msg_type msg = ''answer'' \<Longrightarrow> msg_sdp msg = Some s \<Longrightarrow> s \<noteq> [] \<Longrightarrow>
   handleSignal api msg c =
     (if signalingState api (pc c) = Stable
      then (None, warn ''Ignoring duplicate answer (already stable)'' c)
      else
        (case setRemoteDescription api (Answer, s) (pc c) of
           Inl err \<Rightarrow> (Some err, log' ''Received answer, establishing connection...'' c)
         | Inr p \<Rightarrow>
             (None,
              log' ''Peer connection established''
                ((log' ''Received answer, establishing connection...'' c)\<lparr>pc := p\<rparr>))))"
  by (simp add: handleSignal_def Let_def log'_def truthy_def split: sum.splits)

lemma handleSignal_ice_candidate:
  "msg_type msg = ''ice-candidate'' \<Longrightarrow> msg_candidate msg = Some cand \<Longrightarrow>
   handleSignal api msg c =
     (case addIceCandidate api cand (pc c) of
        Inl err \<Rightarrow> (None, c\<lparr>console := console c @ [Error ''Error adding ICE candidate:'' err]\<rparr>)
      | Inr p \<Rightarrow> (None, c\<lparr>pc := p\<rparr>))"
  by (simp add: handleSignal_def)

lemma handleSignal_other:
  "msg_type msg \<noteq> ''session-joined'' \<Longrightarrow>
   \<not> (msg_type msg = ''offer'' \<and> truthy (msg_sdp msg)) \<Longrightarrow>
   \<not> (msg_type msg = ''answer'' \<and> truthy (msg_sdp msg)) \<Longrightarrow>
   \<not> (msg_type msg = ''ice-candidate'' \<and> msg_candidate msg \<noteq> None) \<Longrightarrow>
   handleSignal api msg c = (None, c)"
  by (auto simp: handleSignal_def)

lemma silent_eq_iff:
  "silent c = silent c' \<longleftrightarrow>
     pc c = pc c' \<and> dc c = dc c' \<and> sessionId c = sessionId c' \<and> ws c = ws c'"
  for c c' :: "'pc client"
  by (cases c; cases c') (simp add: silent_def)

lemma silent_simps [simp]:
  "pc (silent c) = pc c" "dc (silent c) = dc c" "sessionId (silent c) = sessionId c"
  "ws (silent c) = ws c" "console (silent c) = []"
  by (simp_all add: silent_def)

lemma handleSignal_console:
  fixes c c' :: "'pc client"
  assumes "silent c = silent c'"
  shows "fst (handleSignal api msg c) = fst (handleSignal api msg c') \<and>
         silent (snd (handleSignal api msg c)) = silent (snd (handleSignal api msg c'))"
proof -
  from assms have eq: "pc c = pc c'" "dc c = dc c'" "sessionId c = sessionId c'" "ws c = ws c'"
    by (simp_all add: silent_eq_iff)
  consider (joined) "msg_type msg = ''session-joined''"
    | (offer) s where "msg_type msg = ''offer''" "msg_sdp msg = Some s" "s \<noteq> []"
    | (answer) s where "msg_type msg = ''answer''" "msg_sdp msg = Some s" "s \<noteq> []"
    | (ice) cand where "msg_type msg = ''ice-candidate''" "msg_candidate msg = Some cand"
    | (other) "msg_type msg \<noteq> ''session-joined''"
        "\<not> (msg_type msg = ''offer'' \<and> truthy (msg_sdp msg))"
        "\<not> (msg_type msg = ''answer'' \<and> truthy (msg_sdp msg))"
        "\<not> (msg_type msg = ''ice-candidate'' \<and> msg_candidate msg \<noteq> None)"
    by (cases "msg_sdp msg"; cases "msg_candidate msg") (auto simp: truthy_def)
  then show ?thesis
  proof cases
    case joined
    show ?thesis
      unfolding handleSignal_session_joined [OF joined]
      by (simp add: eq silent_eq_iff log'_def ws_send_def split: sum.splits)
  next
    case offer
    show ?thesis
      unfolding handleSignal_offer [OF offer]
      by (simp add: eq silent_eq_iff log'_def warn_def ws_send_def split: sum.splits)
  next
    case answer
    show ?thesis
      unfolding handleSignal_answer [OF answer]
      by (simp add: eq silent_eq_iff log'_def warn_def split: sum.splits)
  next
    case ice
    show ?thesis
      unfolding handleSignal_ice_candidate [OF ice]
      by (simp add: eq silent_eq_iff split: sum.splits)
  next
    case other
    show ?thesis
      unfolding handleSignal_other [OF other]
      by (simp add: eq silent_eq_iff)
  qed
qed

lemma onmessage_console:
  fixes c c' :: "'pc client"
  assumes "silent c = silent c'"
  shows "silent (onmessage api e c) = silent (onmessage api e c')"
proof (cases "payload e")
  case None
  have "silent (warn ''Non-JSON WebSocket message ignored:'' c) =
      silent (warn ''Non-JSON WebSocket message ignored:'' c')"
    using assms by (simp add: warn_def silent_eq_iff)
  then show ?thesis
    by (simp only: onmessage_def None option.case)
next
  case (Some msg)
  obtain r k where r: "handleSignal api msg c = (r, k)"
    by (cases "handleSignal api msg c")
  obtain r' k' where r': "handleSignal api msg c' = (r', k')"
    by (cases "handleSignal api msg c'")
  from handleSignal_console [OF assms, of api msg] r r'
  have rk: "r = r'" "silent k = silent k'"
    by simp_all
  have "onmessage api e c =
      (case r of None \<Rightarrow> k
       | Some err \<Rightarrow> k\<lparr>console := console k @ [Error ''Uncaught (in promise)'' err]\<rparr>)"
    by (simp only: onmessage_def Some option.case r prod.case)
  moreover have "onmessage api e c' =
      (case r' of None \<Rightarrow> k'
       | Some err \<Rightarrow> k'\<lparr>console := console k' @ [Error ''Uncaught (in promise)'' err]\<rparr>)"
    by (simp only: onmessage_def Some option.case r' prod.case)
  ultimately show ?thesis
    using rk by (cases r') (simp_all add: silent_eq_iff)
qed

lemma fold_onmessage_console:
  fixes c c' :: "'pc client"
  shows "silent c = silent c' \<Longrightarrow>
    silent (fold (onmessage api) es c) = silent (fold (onmessage api) es c')"
proof (induction es arbitrary: c c')
  case Nil
  then show ?case by simp
next
  case (Cons e es)
  from Cons.prems have "silent (onmessage api e c) = silent (onmessage api e c')"
    by (rule onmessage_console)
  from Cons.IH [OF this] show ?case
    by simp
qed

subsection \<open>Session ids\<close>

text \<open>
  Claim C5, as the code has it. \<^verbatim>\<open>handleSignal\<close> never reads \<^verbatim>\<open>msg.sessionId\<close>: an
  envelope is handled in the same way whatever session id it carries.
\<close>

theorem handleSignal_ignores_sessionId:
  "handleSignal api (msg\<lparr>msg_sessionId := sid\<rparr>) c = handleSignal api msg c"
  by (simp add: handleSignal_def split del: if_split cong: if_cong)

lemma foreign_answer_run:
  "handleSignal (jsep ''v=0 local'') foreign_answer offering_client =
     (None,
      offering_client
        \<lparr>pc := \<lparr>state = Stable, localDescription = Some (Offer, ''v=0 local''),
                 remoteDescription = Some (Answer, ''v=0 other''), remoteCandidates = []\<rparr>,
         console := [Log ''Received answer, establishing connection...'',
                     Log ''Peer connection established'']\<rparr>)"
proof -
  have "msg_type foreign_answer = ''answer''" "msg_sdp foreign_answer = Some ''v=0 other''"
    "''v=0 other'' \<noteq> []"
    by (simp_all add: foreign_answer_def)
  then have "handleSignal (jsep ''v=0 local'') foreign_answer offering_client =
      (if signalingState (jsep ''v=0 local'') (pc offering_client) = Stable
       then (None, warn ''Ignoring duplicate answer (already stable)'' offering_client)
       else
         (case setRemoteDescription (jsep ''v=0 local'') (Answer, ''v=0 other'') (pc offering_client) of
            Inl err \<Rightarrow> (Some err, log' ''Received answer, establishing connection...'' offering_client)
          | Inr p \<Rightarrow>
              (None,
               log' ''Peer connection established''
                 ((log' ''Received answer, establishing connection...'' offering_client)\<lparr>pc := p\<rparr>))))"
    by (rule handleSignal_answer)
  then show ?thesis
    by (simp add: jsep_def offering_client_def log'_def)
qed

text \<open>
  Counterexample to C5: a sender that waits for its answer takes the answer of another
  session: the remote description is set and the connection becomes stable.
\<close>

theorem foreign_session_answer_applied:
  "msg_sessionId foreign_answer \<noteq> sessionId offering_client \<and>
   snd (handleSignal (jsep ''v=0 local'') foreign_answer offering_client) \<noteq> offering_client \<and>
   remoteDescription (pc (snd (handleSignal (jsep ''v=0 local'') foreign_answer offering_client))) =
     Some (Answer, ''v=0 other'') \<and>
   signalingState (jsep ''v=0 local'')
     (pc (snd (handleSignal (jsep ''v=0 local'') foreign_answer offering_client))) = Stable"
  unfolding foreign_answer_run
  by (simp add: foreign_answer_def offering_client_def jsep_def)

subsection \<open>Duplicate answers\<close>

text \<open>
  Claim C6. An answer that arrives while \<^verbatim>\<open>pc.signalingState\<close> is \<^verbatim>\<open>stable\<close>
  changes neither the connection nor what was sent and rejects nothing; it leaves one
  warning in the console (none when the envelope has no SDP). An answer with an SDP that
  arrives in another state is passed to \<^verbatim>\<open>pc.setRemoteDescription\<close>: the connection
  becomes what that call makes of it, and a rejection of the call rejects
  \<^verbatim>\<open>handleSignal\<close>.
\<close>

theorem duplicate_answer_ignored:
  fixes c :: "'pc client"
  shows
  "(msg_type msg = ''answer'' \<and> signalingState api (pc c) = Stable \<longrightarrow>
      handleSignal api msg c =
        (None, if truthy (msg_sdp msg)
               then c\<lparr>console := console c @ [Warn ''Ignoring duplicate answer (already stable)'']\<rparr>
               else c) \<and>
      pc (snd (handleSignal api msg c)) = pc c \<and>
      ws (snd (handleSignal api msg c)) = ws c) \<and>
   (msg_type msg = ''answer'' \<and> msg_sdp msg = Some s \<and> s \<noteq> [] \<and>
    signalingState api (pc c) \<noteq> Stable \<longrightarrow>
      handleSignal api msg c =
        (case setRemoteDescription api (Answer, s) (pc c) of
           Inl err \<Rightarrow> (Some err, log' ''Received answer, establishing connection...'' c)
         | Inr p \<Rightarrow>
             (None,
              log' ''Peer connection established''
                ((log' ''Received answer, establishing connection...'' c)\<lparr>pc := p\<rparr>))))"
proof (intro conjI impI)
  assume a: "msg_type msg = ''answer'' \<and> signalingState api (pc c) = Stable"
  show r: "handleSignal api msg c =
        (None, if truthy (msg_sdp msg)
               then c\<lparr>console := console c @ [Warn ''Ignoring duplicate answer (already stable)'']\<rparr>
               else c)"
  proof (cases "truthy (msg_sdp msg)")
    case True
    then obtain s' where "msg_sdp msg = Some s'" "s' \<noteq> []"
      by (auto simp: truthy_def split: option.splits)
    with a True show ?thesis
      by (simp add: handleSignal_answer warn_def)
  next
    case False
    with a show ?thesis
      by (simp add: handleSignal_other)
  qed
  show "pc (snd (handleSignal api msg c)) = pc c"
    unfolding r by simp
  show "ws (snd (handleSignal api msg c)) = ws c"
    unfolding r by simp
next
  assume "msg_type msg = ''answer'' \<and> msg_sdp msg = Some s \<and> s \<noteq> [] \<and>
    signalingState api (pc c) \<noteq> Stable"
  then show "handleSignal api msg c =
        (case setRemoteDescription api (Answer, s) (pc c) of
           Inl err \<Rightarrow> (Some err, log' ''Received answer, establishing connection...'' c)
         | Inr p \<Rightarrow>
             (None,
              log' ''Peer connection established''
                ((log' ''Received answer, establishing connection...'' c)\<lparr>pc := p\<rparr>)))"
    by (simp add: handleSignal_answer)
qed

text \<open>
  Witness for C6: the connected sender ignores the answer with a warning; the sender
  that waits for its answer applies it and becomes stable.
\<close>

theorem duplicate_answer_ignored_witness:
  "signalingState (jsep ''v=0 local'') (pc connected_client) = Stable \<and>
   handleSignal (jsep ''v=0 local'') remote_answer connected_client =
     (None, connected_client\<lparr>console := [Warn ''Ignoring duplicate answer (already stable)'']\<rparr>) \<and>
   signalingState (jsep ''v=0 local'') (pc offering_client) = HaveLocalOffer \<and>
   handleSignal (jsep ''v=0 local'') remote_answer offering_client =
     (None,
      offering_client
        \<lparr>pc := \<lparr>state = Stable, localDescription = Some (Offer, ''v=0 local''),
                 remoteDescription = Some (Answer, ''v=0 remote''), remoteCandidates = []\<rparr>,
         console := [Log ''Received answer, establishing connection...'',
                     Log ''Peer connection established'']\<rparr>)"
proof -
  have m: "msg_type remote_answer = ''answer''" "msg_sdp remote_answer = Some ''v=0 remote''"
    "truthy (msg_sdp remote_answer)" "''v=0 remote'' \<noteq> []"
    by (simp_all add: remote_answer_def truthy_def)
  have st: "signalingState (jsep ''v=0 local'') (pc connected_client) = Stable"
    by (simp add: jsep_def connected_client_def)
  have lo: "signalingState (jsep ''v=0 local'') (pc offering_client) = HaveLocalOffer"
    by (simp add: jsep_def offering_client_def)
  have "handleSignal (jsep ''v=0 local'') remote_answer connected_client =
      (None, if truthy (msg_sdp remote_answer)
             then connected_client\<lparr>console := console connected_client @
                    [Warn ''Ignoring duplicate answer (already stable)'']\<rparr>
             else connected_client)"
    using duplicate_answer_ignored [of remote_answer "jsep ''v=0 local''" connected_client,
        THEN conjunct1] m(1) st
    by (elim impE) simp_all
  then have dup: "handleSignal (jsep ''v=0 local'') remote_answer connected_client =
     (None, connected_client\<lparr>console := [Warn ''Ignoring duplicate answer (already stable)'']\<rparr>)"
    by (simp add: m(3)) (simp add: connected_client_def)
  have "handleSignal (jsep ''v=0 local'') remote_answer offering_client =
      (case setRemoteDescription (jsep ''v=0 local'') (Answer, ''v=0 remote'') (pc offering_client) of
         Inl err \<Rightarrow> (Some err, log' ''Received answer, establishing connection...'' offering_client)
       | Inr p \<Rightarrow>
           (None,
            log' ''Peer connection established''
              ((log' ''Received answer, establishing connection...'' offering_client)\<lparr>pc := p\<rparr>)))"
    using duplicate_answer_ignored [of remote_answer "jsep ''v=0 local''" offering_client
        "''v=0 remote''", THEN conjunct2] m(1,2,4) lo
    by (elim impE) simp_all
  then have app: "handleSignal (jsep ''v=0 local'') remote_answer offering_client =
     (None,
      offering_client
        \<lparr>pc := \<lparr>state = Stable, localDescription = Some (Offer, ''v=0 local''),
                 remoteDescription = Some (Answer, ''v=0 remote''), remoteCandidates = []\<rparr>,
         console := [Log ''Received answer, establishing connection...'',
                     Log ''Peer connection established'']\<rparr>)"
    by (simp add: jsep_def offering_client_def log'_def)
  from st lo dup app show ?thesis
    by (intro conjI)
qed

subsection \<open>Messages that are not JSON\<close>

text \<open>
  Claim C7. A message of the socket whose text is not JSON, a string or a \<^verbatim>\<open>Blob\<close>,
  leaves one warning in the console and nothing else: no error is reported. The stream
  goes on: the messages after it are handled from the state the messages before it have
  left, and apart from the warning the client ends as if the message had never come.
\<close>

theorem non_json_dropped:
  fixes c :: "'pc client"
  shows "onmessage api (StringData None) c =
           c\<lparr>console := console c @ [Warn ''Non-JSON WebSocket message ignored:'']\<rparr> \<and>
         onmessage api (BlobData None) c =
           c\<lparr>console := console c @ [Warn ''Non-JSON WebSocket message ignored:'']\<rparr> \<and>
         fold (onmessage api) (es @ StringData None # es') c =
           fold (onmessage api) es'
             (warn ''Non-JSON WebSocket message ignored:'' (fold (onmessage api) es c)) \<and>
         silent (fold (onmessage api) (es @ StringData None # es') c) =
           silent (fold (onmessage api) (es @ es') c) \<and>
         silent (fold (onmessage api) (es @ BlobData None # es') c) =
           silent (fold (onmessage api) (es @ es') c)"
proof -
  have bad: "onmessage api (StringData None) k = warn ''Non-JSON WebSocket message ignored:'' k"
    "onmessage api (BlobData None) k = warn ''Non-JSON WebSocket message ignored:'' k"
    for k :: "'pc client"
    by (simp_all add: onmessage_def payload_def)
  have same: "silent (warn ''Non-JSON WebSocket message ignored:'' k) = silent k"
    for k :: "'pc client"
    by (simp add: warn_def silent_def)
  have cont: "silent (fold (onmessage api) es'
        (warn ''Non-JSON WebSocket message ignored:'' (fold (onmessage api) es c))) =
      silent (fold (onmessage api) es' (fold (onmessage api) es c))"
    by (rule fold_onmessage_console [OF same])
  show ?thesis
    by (simp add: bad cont) (simp add: warn_def)
qed

end
